theory Spec2Isabelle
  imports Complex_Main "HOL-Library.Monad_Syntax"
begin

section \<open>JavaScript values seen by the constructor\<close>

text \<open>
  \<^verbatim>\<open>Quaternion.js\<close> is dynamically typed: the constructor inspects
  \<^verbatim>\<open>arguments.length\<close> and reads the properties \<^verbatim>\<open>w, x, y, z\<close> and
  \<^verbatim>\<open>0, 1, 2, 3\<close> of whatever it is handed. The values it can be handed are modelled
  by \<open>jsval\<close>. A number is a finite number \<open>JNum r\<close> or \<^verbatim>\<open>NaN\<close>; the infinities
  behave in the constructor as any other non-zero number and are not told apart from one.
  The sign of zero is not modelled.
\<close>

datatype jsval =
    JUndefined
  | JNull
  | JBool bool
  | JNum real
  | JNaN
  | JStr string
  | JArr "jsval list"
  | JObj "(string \<times> jsval) list"

datatype error = TypeError

text \<open>
  Property keys are strings. An index \<open>i\<close>, as in \<^verbatim>\<open>argument[1]\<close>, is the key made of
  its decimal digits, so \<^verbatim>\<open>argument[1]\<close> and \<^verbatim>\<open>argument["1"]\<close> read the same
  property.
\<close>

fun key_of_index :: "nat \<Rightarrow> string" where
  "key_of_index n =
     (if n < 10 then [''0123456789'' ! n]
      else key_of_index (n div 10) @ [''0123456789'' ! (n mod 10)])"

declare key_of_index.simps [simp del]

text \<open>The element of a sequence stored under key \<open>k\<close>, counting the indices from \<open>i\<close>.\<close>

fun lookup_index :: "'a list \<Rightarrow> nat \<Rightarrow> string \<Rightarrow> 'a option" where
  "lookup_index [] i k = None"
| "lookup_index (x # xs) i k = (if key_of_index i = k then Some x else lookup_index xs (Suc i) k)"

text \<open>
  Property read \<^verbatim>\<open>v.name\<close> / \<^verbatim>\<open>v[i]\<close> on a value that is neither
  \<^verbatim>\<open>undefined\<close> nor \<^verbatim>\<open>null\<close>. A missing property reads as \<^verbatim>\<open>undefined\<close>; an
  array has its elements under the keys of the indices below its length; a string has its
  characters there; a plain object is an association list of its own properties. Of the
  properties an array or a string has besides its elements (\<^verbatim>\<open>length\<close>, methods) none is
  named \<^verbatim>\<open>w, x, y, z\<close>, and only those names are read.
\<close>

fun get :: "jsval \<Rightarrow> string \<Rightarrow> jsval" where
  "get (JArr xs) k = (case lookup_index xs 0 k of None \<Rightarrow> JUndefined | Some v \<Rightarrow> v)"
| "get (JStr s) k = (case lookup_index s 0 k of None \<Rightarrow> JUndefined | Some c \<Rightarrow> JStr [c])"
| "get (JObj ps) k = (case map_of ps k of None \<Rightarrow> JUndefined | Some v \<Rightarrow> v)"
| "get _ _ = JUndefined"

text \<open>Reading a property of \<^verbatim>\<open>undefined\<close> or \<^verbatim>\<open>null\<close> throws a TypeError.\<close>

fun nullish :: "jsval \<Rightarrow> bool" where
  "nullish JUndefined = True"
| "nullish JNull = True"
| "nullish _ = False"

text \<open>
  JavaScript truthiness, and the operator \<^verbatim>\<open>a || b\<close>. The falsy numbers are zero and
  \<^verbatim>\<open>NaN\<close>.
\<close>

fun truthy :: "jsval \<Rightarrow> bool" where
  "truthy JUndefined = False"
| "truthy JNull = False"
| "truthy (JBool b) = b"
| "truthy (JNum r) = (r \<noteq> 0)"
| "truthy JNaN = False"
| "truthy (JStr s) = (s \<noteq> [])"
| "truthy (JArr _) = True"
| "truthy (JObj _) = True"

definition js_or :: "jsval \<Rightarrow> jsval \<Rightarrow> jsval" where
  "js_or a b = (if truthy a then a else b)"

section \<open>The Quaternion object and its constructor\<close>

text \<open>
  The four fields of the source are \<^verbatim>\<open>w, x, y, z\<close>; they are named \<open>qw, qx, qy, qz\<close>
  here so that \<open>w, x, y, z\<close> stay available as variables. The constructor stores whatever
  it is given, so the record is polymorphic in the type of its fields: \<open>jsval quat\<close> is
  what the constructor builds from arbitrary arguments, \<open>real quat\<close> is a quaternion whose
  fields are real numbers, \<open>num quat\<close> one whose fields are doubles.
\<close>

record 'a quat =
  qw :: 'a
  qx :: 'a
  qy :: 'a
  qz :: 'a

type_synonym quaternion = "real quat"

text \<open>
  \<^verbatim>\<open>function Quaternion()\<close> (lines 13-44): a switch on \<^verbatim>\<open>arguments.length\<close> with the
  cases 1, 4 and default.
\<close>

definition Quaternion :: "jsval list \<Rightarrow> error + jsval quat" where
  "Quaternion arguments =
     (if length arguments = 1 then
        (let argument = arguments ! 0 in
         if nullish argument then Inl TypeError
         else Inr \<lparr>
           qw = (if get argument ''w'' \<noteq> JUndefined then get argument ''w''
                 else if get argument (key_of_index 0) \<noteq> JUndefined
                   then get argument (key_of_index 0)
                 else JNum 1),
           qx = js_or (js_or (get argument ''x'') (get argument (key_of_index 1))) (JNum 0),
           qy = js_or (js_or (get argument ''y'') (get argument (key_of_index 2))) (JNum 0),
           qz = js_or (js_or (get argument ''z'') (get argument (key_of_index 3))) (JNum 0) \<rparr>)
      else if length arguments = 4 then
        Inr \<lparr> qw = arguments ! 0, qx = arguments ! 1, qy = arguments ! 2, qz = arguments ! 3 \<rparr>
      else
        Inr \<lparr> qw = JNum 1, qx = JNum 0, qy = JNum 0, qz = JNum 0 \<rparr>)"

text \<open>\<^verbatim>\<open>Quaternion.prototype.toArray\<close> (lines 285-287).\<close>

definition toArray :: "'a quat \<Rightarrow> 'a list" where
  "toArray this = [qw this, qx this, qy this, qz this]"

text \<open>
  The two call shapes the numeric code uses: \<^verbatim>\<open>new Quaternion( w, x, y, z )\<close> with four
  numbers and \<^verbatim>\<open>new Quaternion()\<close>. They are the constructor at those arguments, which
  \<open>Quaternion4_is_ctor\<close> and \<open>Quaternion0_is_ctor\<close> below state.
\<close>

definition Quaternion4 :: "real \<Rightarrow> real \<Rightarrow> real \<Rightarrow> real \<Rightarrow> quaternion" where
  "Quaternion4 w x y z = \<lparr> qw = w, qx = x, qy = y, qz = z \<rparr>"

definition Quaternion0 :: quaternion where
  "Quaternion0 = \<lparr> qw = 1, qx = 0, qy = 0, qz = 0 \<rparr>"

definition num_quat :: "quaternion \<Rightarrow> jsval quat" where
  "num_quat q = \<lparr> qw = JNum (qw q), qx = JNum (qx q), qy = JNum (qy q), qz = JNum (qz q) \<rparr>"

section \<open>Numbers\<close>

text \<open>
  The fields of a Quaternion are JavaScript numbers, that is double-precision values. Two
  models of them are used. The algebraic operations \<^verbatim>\<open>mult\<close>, \<^verbatim>\<open>conjugate\<close>,
  \<^verbatim>\<open>inverse\<close>, \<^verbatim>\<open>rotate\<close>, \<^verbatim>\<open>matrix\<close> and \<^verbatim>\<open>slerp\<close> are modelled over the real
  numbers, in exact arithmetic: their properties are identities of formulas, stated by the
  specification up to rounding. \<^verbatim>\<open>normalize\<close> and \<^verbatim>\<open>rotationRadians\<close> are modelled over
  the doubles of the next section, with rounding, overflow, underflow, the infinities and
  \<^verbatim>\<open>NaN\<close>, since their properties depend on them.

  In the exact model the operations below can leave the finite numbers: division by zero
  gives \<^verbatim>\<open>NaN\<close> or an infinity, the square root of a negative number and the arc cosine
  outside \<open>[-1, 1]\<close> give \<^verbatim>\<open>NaN\<close>. There they return \<open>None\<close>.
\<close>

definition js_div :: "real \<Rightarrow> real \<Rightarrow> real option" where
  "js_div a b = (if b = 0 then None else Some (a / b))"

definition js_sqrt :: "real \<Rightarrow> real option" where
  "js_sqrt a = (if a < 0 then None else Some (sqrt a))"

definition js_acos :: "real \<Rightarrow> real option" where
  "js_acos a = (if - 1 \<le> a \<and> a \<le> 1 then Some (arccos a) else None)"

section \<open>Double-precision numbers\<close>

text \<open>
  A double is a finite real number, an infinity or \<^verbatim>\<open>NaN\<close>. The sign of zero is not
  modelled: a zero divisor is taken as \<open>+0\<close>, and the code modelled here never divides
  by zero, which is the one operation of it that would tell the two zeros apart.
\<close>

datatype num = Fin real | PInf | NInf | NaN

text \<open>
  Rounding to nearest, ties to even. The unit in the last place of \<open>x\<close> is \<open>2\<^sup>e\<close> with
  \<open>e = \<lfloor>log\<^sub>2 |x|\<rfloor> - 52\<close>, and \<open>-1074\<close> for the subnormal numbers; \<open>x\<close> is rounded to the
  nearest multiple of it, to the even multiple when it lies half way between two. A result of
  magnitude \<open>2\<^sup>1\<^sup>0\<^sup>2\<^sup>4\<close> or more overflows to an infinity.
\<close>

definition ulp_exp :: "real \<Rightarrow> int" where
  "ulp_exp x = max (\<lfloor>log 2 \<bar>x\<bar>\<rfloor> - 52) (- 1074)"

definition ulp :: "real \<Rightarrow> real" where
  "ulp x = 2 powr of_int (ulp_exp x)"

definition round_even :: "real \<Rightarrow> int" where
  "round_even q =
     (let f = \<lfloor>q\<rfloor> in
      if q - of_int f < 1 / 2 then f
      else if 1 / 2 < q - of_int f then f + 1
      else if even f then f else f + 1)"

definition rd_fin :: "real \<Rightarrow> real" where
  "rd_fin x = (if x = 0 then 0 else of_int (round_even (x / ulp x)) * ulp x)"

definition rd :: "real \<Rightarrow> num" where
  "rd x = (let y = rd_fin x in
           if 2 ^ 1024 \<le> \<bar>y\<bar> then (if 0 < x then PInf else NInf) else Fin y)"

text \<open>
  The operators \<^verbatim>\<open>+\<close>, \<^verbatim>\<open>*\<close>, \<^verbatim>\<open>/\<close> and \<^verbatim>\<open>Math.sqrt\<close>: the exact result, rounded.
\<close>

fun fadd :: "num \<Rightarrow> num \<Rightarrow> num" where
  "fadd NaN _ = NaN"
| "fadd _ NaN = NaN"
| "fadd PInf NInf = NaN"
| "fadd NInf PInf = NaN"
| "fadd PInf _ = PInf"
| "fadd _ PInf = PInf"
| "fadd NInf _ = NInf"
| "fadd _ NInf = NInf"
| "fadd (Fin a) (Fin b) = rd (a + b)"

fun fmul :: "num \<Rightarrow> num \<Rightarrow> num" where
  "fmul NaN _ = NaN"
| "fmul _ NaN = NaN"
| "fmul (Fin a) (Fin b) = rd (a * b)"
| "fmul (Fin a) PInf = (if a = 0 then NaN else if 0 < a then PInf else NInf)"
| "fmul (Fin a) NInf = (if a = 0 then NaN else if 0 < a then NInf else PInf)"
| "fmul PInf (Fin b) = (if b = 0 then NaN else if 0 < b then PInf else NInf)"
| "fmul NInf (Fin b) = (if b = 0 then NaN else if 0 < b then NInf else PInf)"
| "fmul PInf PInf = PInf"
| "fmul PInf NInf = NInf"
| "fmul NInf PInf = NInf"
| "fmul NInf NInf = PInf"

fun fdiv :: "num \<Rightarrow> num \<Rightarrow> num" where
  "fdiv NaN _ = NaN"
| "fdiv _ NaN = NaN"
| "fdiv (Fin a) (Fin b) =
     (if b = 0 then (if a = 0 then NaN else if 0 < a then PInf else NInf) else rd (a / b))"
| "fdiv (Fin a) PInf = Fin 0"
| "fdiv (Fin a) NInf = Fin 0"
| "fdiv PInf (Fin b) = (if 0 \<le> b then PInf else NInf)"
| "fdiv NInf (Fin b) = (if 0 \<le> b then NInf else PInf)"
| "fdiv _ _ = NaN"

fun fsqrt :: "num \<Rightarrow> num" where
  "fsqrt (Fin a) = (if a < 0 then NaN else rd (sqrt a))"
| "fsqrt PInf = PInf"
| "fsqrt _ = NaN"

text \<open>
  The operator \<^verbatim>\<open>a % b\<close>: \<open>a - b * n\<close> where \<open>n\<close> is the quotient \<open>a / b\<close> truncated
  towards zero, so the result has the sign of the dividend; it is computed without rounding.
  The remainder of an infinity, and the remainder by zero, is \<^verbatim>\<open>NaN\<close>; the remainder of a
  finite number by an infinity is that number.
\<close>

definition js_trunc :: "real \<Rightarrow> int" where
  "js_trunc r = (if r < 0 then \<lceil>r\<rceil> else \<lfloor>r\<rfloor>)"

fun frem :: "num \<Rightarrow> num \<Rightarrow> num" where
  "frem NaN _ = NaN"
| "frem _ NaN = NaN"
| "frem PInf _ = NaN"
| "frem NInf _ = NaN"
| "frem (Fin a) (Fin b) = (if b = 0 then NaN else Fin (a - b * of_int (js_trunc (a / b))))"
| "frem (Fin a) _ = Fin a"

text \<open>The operator \<^verbatim>\<open>a > b\<close>.\<close>

fun js_gt :: "num \<Rightarrow> num \<Rightarrow> bool" where
  "js_gt NaN _ = False"
| "js_gt _ NaN = False"
| "js_gt (Fin a) (Fin b) = (b < a)"
| "js_gt PInf PInf = False"
| "js_gt PInf _ = True"
| "js_gt _ PInf = False"
| "js_gt NInf _ = False"
| "js_gt _ NInf = True"

text \<open>
  \<^verbatim>\<open>Math.PI\<close> is the double nearest to \<open>\<pi>\<close>, \<^verbatim>\<open>0x400921FB54442D18\<close>, which is
  \<open>884279719003555 / 2\<^sup>4\<^sup>8 = 3.141592653589793116\<close>.
\<close>

definition Math_PI :: real where
  "Math_PI = 884279719003555 / 2 ^ 48"

section \<open>The collaborators Vec3 and Mat33\<close>

text \<open>
  \<^verbatim>\<open>Vec3.js\<close> and \<^verbatim>\<open>Mat33.js\<close> are required by \<^verbatim>\<open>Quaternion.js\<close> but are not
  part of the sources at hand. What is used of them is modelled from the specification.
  As for the quaternion, the record of a vector is polymorphic in the type of its fields.
\<close>

record 'a vec =
  vx :: 'a
  vy :: 'a
  vz :: 'a

type_synonym vec3 = "real vec"

definition Vec3 :: "real \<Rightarrow> real \<Rightarrow> real \<Rightarrow> vec3" where
  \<comment> \<open>Modelled from the spec: the constructor of Vec3, "a 3-component floating-point vector
      with field access x, y, z".\<close>
  "Vec3 x y z = \<lparr> vx = x, vy = y, vz = z \<rparr>"

definition Vec3_length :: "vec3 \<Rightarrow> real" where
  \<comment> \<open>Modelled from the spec: the Euclidean magnitude of a Vec3.\<close>
  "Vec3_length v = sqrt (vx v * vx v + vy v * vy v + vz v * vz v)"

definition Vec3_normalize :: "num vec \<Rightarrow> num vec" where
  \<comment> \<open>Modelled from the spec: Vec3.normalize, "returning a unit-length copy (or a zero vector
      if input has zero length)", computed on doubles as Quaternion.normalize is.\<close>
  "Vec3_normalize v =
     (let mag = fsqrt (fadd (fadd (fmul (vx v) (vx v)) (fmul (vy v) (vy v)))
                            (fmul (vz v) (vz v)))
      in if mag \<noteq> Fin 0 then
           \<lparr> vx = fdiv (vx v) mag, vy = fdiv (vy v) mag, vz = fdiv (vz v) mag \<rparr>
         else \<lparr> vx = Fin 0, vy = Fin 0, vz = Fin 0 \<rparr>)"

text \<open>
  \<^verbatim>\<open>new Mat33([...])\<close> receives a flat sequence of nine numbers; the matrix is modelled by
  that sequence.
\<close>

type_synonym mat33 = "real list"

definition Mat33 :: "real list \<Rightarrow> mat33" where
  \<comment> \<open>Modelled from the spec: Mat33, "constructible from a flat 9-element sequence".\<close>
  "Mat33 xs = xs"

definition Mat33_row_major_apply :: "mat33 \<Rightarrow> vec3 \<Rightarrow> vec3" where
  \<comment> \<open>Modelled from the spec: the product of the matrix with a column vector when the nine
      values are read in row-major order, the entry of row i and column j at index 3 i + j.\<close>
  "Mat33_row_major_apply m v =
     Vec3 (m ! 0 * vx v + m ! 1 * vy v + m ! 2 * vz v)
          (m ! 3 * vx v + m ! 4 * vy v + m ! 5 * vz v)
          (m ! 6 * vx v + m ! 7 * vy v + m ! 8 * vz v)"

definition Mat33_col_major_apply :: "mat33 \<Rightarrow> vec3 \<Rightarrow> vec3" where
  \<comment> \<open>The same product when the nine values are read in column-major order, the entry of
      row i and column j at index 3 j + i.\<close>
  "Mat33_col_major_apply m v =
     Vec3 (m ! 0 * vx v + m ! 3 * vy v + m ! 6 * vz v)
          (m ! 1 * vx v + m ! 4 * vy v + m ! 7 * vz v)
          (m ! 2 * vx v + m ! 5 * vy v + m ! 8 * vz v)"

section \<open>Quaternion operations\<close>

text \<open>
  The operations take quaternions whose fields are numbers. \<^verbatim>\<open>mult\<close> and \<^verbatim>\<open>rotate\<close>
  also accept an array, which they first turn into a Quaternion or a Vec3; the operand types
  here are the converted ones.
\<close>

text \<open>\<^verbatim>\<open>Quaternion.identity\<close> (lines 53-55).\<close>

definition identity :: quaternion where
  "identity = Quaternion4 1 0 0 0"

text \<open>\<^verbatim>\<open>Quaternion.prototype.mult\<close> (lines 66-73).\<close>

definition mult :: "quaternion \<Rightarrow> quaternion \<Rightarrow> quaternion" where
  "mult this that =
     (let w = (qw that * qw this) - (qx that * qx this) - (qy that * qy this) - (qz that * qz this);
          x = qy this * qz that - qz this * qy that + qw this * qx that + qx this * qw that;
          y = qz this * qx that - qx this * qz that + qw this * qy that + qy this * qw that;
          z = qx this * qy that - qy this * qx that + qw this * qz that + qz this * qw that
      in Quaternion4 w x y z)"

text \<open>\<^verbatim>\<open>Quaternion.prototype.conjugate\<close> and \<^verbatim>\<open>inverse\<close> (lines 243-255).\<close>

definition conjugate :: "quaternion \<Rightarrow> quaternion" where
  "conjugate this = Quaternion4 (qw this) (- qx this) (- qy this) (- qz this)"

definition inverse :: "quaternion \<Rightarrow> quaternion" where
  "inverse this = conjugate this"

text \<open>\<^verbatim>\<open>Quaternion.prototype.rotate\<close> (lines 84-89).\<close>

definition rotate :: "quaternion \<Rightarrow> vec3 \<Rightarrow> vec3" where
  "rotate this that =
     (let vq = Quaternion4 0 (vx that) (vy that) (vz that);
          r = mult (mult this vq) (inverse this)
      in Vec3 (qx r) (qy r) (qz r))"

text \<open>\<^verbatim>\<open>Quaternion.prototype.matrix\<close> (lines 97-111).\<close>

definition matrix :: "quaternion \<Rightarrow> mat33" where
  "matrix this =
     (let xx = qx this * qx this;
          yy = qy this * qy this;
          zz = qz this * qz this;
          xy = qx this * qy this;
          xz = qx this * qz this;
          xw = qx this * qw this;
          yz = qy this * qz this;
          yw = qy this * qw this;
          zw = qz this * qw this
      in Mat33 [
          1 - 2*yy - 2*zz, 2*xy + 2*zw, 2*xz - 2*yw,
          2*xy - 2*zw, 1 - 2*xx - 2*zz, 2*yz + 2*xw,
          2*xz + 2*yw, 2*yz - 2*xw, 1 - 2*xx - 2*yy ])"

text \<open>
  \<^verbatim>\<open>Quaternion.prototype.normalize\<close> (lines 221-235), on doubles. \<^verbatim>\<open>mag !== 0\<close> holds
  of every double but zero, of the infinities and of \<^verbatim>\<open>NaN\<close> too.
\<close>

definition normalize :: "num quat \<Rightarrow> num quat" where
  "normalize this =
     (let mag = fsqrt (fadd (fadd (fadd (fmul (qx this) (qx this)) (fmul (qy this) (qy this)))
                                  (fmul (qz this) (qz this)))
                            (fmul (qw this) (qw this)))
      in if mag \<noteq> Fin 0 then
           \<lparr> qw = fdiv (qw this) mag, qx = fdiv (qx this) mag,
             qy = fdiv (qy this) mag, qz = fdiv (qz this) mag \<rparr>
         else \<lparr> qw = Fin 1, qx = Fin 0, qy = Fin 0, qz = Fin 0 \<rparr>)"

text \<open>
  \<^verbatim>\<open>Quaternion.rotationRadians\<close> (lines 137-149) and \<^verbatim>\<open>rotationDegrees\<close> (123-125), on
  doubles. ECMAScript leaves the accuracy of \<^verbatim>\<open>Math.sin\<close> and \<^verbatim>\<open>Math.cos\<close> to the
  implementation, so the two functions of the host are parameters.
\<close>

definition rotationRadians ::
    "(num \<Rightarrow> num) \<Rightarrow> (num \<Rightarrow> num) \<Rightarrow> num \<Rightarrow> num vec \<Rightarrow> num quat" where
  "rotationRadians Math_sin Math_cos angle axis =
     (let angle' = (if js_gt angle (Fin 0) then frem angle (fmul (Fin 2) (Fin Math_PI))
                    else frem angle (fmul (Fin (- 2)) (Fin Math_PI)));
          axis' = Vec3_normalize axis;
          sina = Math_sin (fdiv angle' (Fin 2));
          cosa = Math_cos (fdiv angle' (Fin 2))
      in normalize \<lparr> qw = cosa, qx = fmul (vx axis') sina,
                      qy = fmul (vy axis') sina, qz = fmul (vz axis') sina \<rparr>)"

definition rotationDegrees ::
    "(num \<Rightarrow> num) \<Rightarrow> (num \<Rightarrow> num) \<Rightarrow> num \<Rightarrow> num vec \<Rightarrow> num quat" where
  "rotationDegrees Math_sin Math_cos angle axis =
     rotationRadians Math_sin Math_cos (fmul angle (fdiv (Fin Math_PI) (Fin 180))) axis"

text \<open>\<^verbatim>\<open>Quaternion.slerp\<close> (lines 162-195).\<close>

definition slerp :: "quaternion \<Rightarrow> quaternion \<Rightarrow> real \<Rightarrow> quaternion option" where
  "slerp from to t =
     (let cosHalfTheta = (qw from * qw to) + (qx from * qx to) + (qy from * qy to) + (qz from * qz to)
      in if \<bar>cosHalfTheta\<bar> \<ge> 1 then
           Some (Quaternion4 (qw from) (qx from) (qy from) (qz from))
         else do {
           halfTheta \<leftarrow> js_acos cosHalfTheta;
           sinHalfTheta \<leftarrow> js_sqrt (1 - cosHalfTheta * cosHalfTheta);
           if \<bar>sinHalfTheta\<bar> < 0.001 then
             Some (Quaternion4 (qw from * 0.5 + qw to * 0.5)
                               (qx from * 0.5 + qx to * 0.5)
                               (qy from * 0.5 + qy to * 0.5)
                               (qz from * 0.5 + qz to * 0.5))
           else do {
             ratioA \<leftarrow> js_div (sin ((1 - t) * halfTheta)) sinHalfTheta;
             ratioB \<leftarrow> js_div (sin (t * halfTheta)) sinHalfTheta;
             Some (Quaternion4 (qw from * ratioA + qw to * ratioB)
                               (qx from * ratioA + qx to * ratioB)
                               (qy from * ratioA + qy to * ratioB)
                               (qz from * ratioA + qz to * ratioB))
           }
         })"

section \<open>Notions used by the properties\<close>

text \<open>A unit quaternion has magnitude 1, that is \<open>w\<^sup>2 + x\<^sup>2 + y\<^sup>2 + z\<^sup>2 = 1\<close>.\<close>

definition unit_quat :: "quaternion \<Rightarrow> bool" where
  "unit_quat q = (qw q * qw q + qx q * qx q + qy q * qy q + qz q * qz q = 1)"

text \<open>The vector \<open>v\<close> embedded as the quaternion \<open>(0, v.x, v.y, v.z)\<close>.\<close>

definition pure_quat :: "vec3 \<Rightarrow> quaternion" where
  "pure_quat v = Quaternion4 0 (vx v) (vy v) (vz v)"

text \<open>The squared magnitude, and the dot product over all four fields.\<close>

definition norm2 :: "quaternion \<Rightarrow> real" where
  "norm2 q = qw q * qw q + qx q * qx q + qy q * qy q + qz q * qz q"

definition dot :: "quaternion \<Rightarrow> quaternion \<Rightarrow> real" where
  "dot a b = (qw a * qw b) + (qx a * qx b) + (qy a * qy b) + (qz a * qz b)"

text \<open>The magnitude that \<^verbatim>\<open>normalize\<close> computes, its local \<^verbatim>\<open>mag\<close>.\<close>

definition magnitude :: "num quat \<Rightarrow> num" where
  "magnitude this =
     fsqrt (fadd (fadd (fadd (fmul (qx this) (qx this)) (fmul (qy this) (qy this)))
                       (fmul (qz this) (qz this)))
                 (fmul (qw this) (qw this)))"

text \<open>The first statement of \<^verbatim>\<open>rotationRadians\<close>: the angle after its remainder.\<close>

definition wrap_angle :: "num \<Rightarrow> num" where
  "wrap_angle angle = (if js_gt angle (Fin 0) then frem angle (fmul (Fin 2) (Fin Math_PI))
                       else frem angle (fmul (Fin (- 2)) (Fin Math_PI)))"

text \<open>
  A host whose \<^verbatim>\<open>Math.sin\<close> and \<^verbatim>\<open>Math.cos\<close> round correctly, as an instance of the
  two parameters of \<open>rotationRadians\<close>.
\<close>

definition Math_sin_rounded :: "num \<Rightarrow> num" where
  "Math_sin_rounded a = (case a of Fin v \<Rightarrow> rd (sin v) | _ \<Rightarrow> NaN)"

definition Math_cos_rounded :: "num \<Rightarrow> num" where
  "Math_cos_rounded a = (case a of Fin v \<Rightarrow> rd (cos v) | _ \<Rightarrow> NaN)"

text \<open>
  Fields for which \<^verbatim>\<open>normalize\<close> neither overflows nor underflows: zero, or of a
  magnitude between \<open>2\<^sup>-\<^sup>2\<^sup>5\<^sup>0\<close> and \<open>2\<^sup>2\<^sup>5\<^sup>0\<close>; \<open>safe\<close> is the wider range that the fields
  of a normalized quaternion stay in.
\<close>

definition moderate :: "real \<Rightarrow> bool" where
  "moderate v = (v = 0 \<or> (1 / 2 ^ 250 \<le> \<bar>v\<bar> \<and> \<bar>v\<bar> \<le> 2 ^ 250))"

definition safe :: "real \<Rightarrow> bool" where
  "safe v = (v = 0 \<or> (1 / 2 ^ 505 \<le> \<bar>v\<bar> \<and> \<bar>v\<bar> \<le> 2 ^ 250))"

text \<open>
  The bookkeeping of rounding errors. One rounding of a normal number changes it by a factor
  between \<open>1 / cc\<close> and \<open>cc\<close>, where \<open>cc = 1 + 2\<^sup>-\<^sup>5\<^sup>2\<close>; \<open>close k x y\<close> says that the
  non-negative numbers \<open>x\<close> and \<open>y\<close> are within \<open>k\<close> such factors of each other. \<open>ok\<close>
  and \<open>rng\<close> bound the exact values away from overflow and from the subnormal numbers;
  \<open>lb n L\<close> says that the double \<open>n\<close> is not \<^verbatim>\<open>NaN\<close>, not negative, at least \<open>L\<close>, and
  not below the least positive double \<open>2 * eta\<close> unless zero.
\<close>

definition cc :: real where "cc = 1 + 1 / 2 ^ 52"

definition close :: "nat \<Rightarrow> real \<Rightarrow> real \<Rightarrow> bool" where
  "close k x y = (0 \<le> x \<and> 0 \<le> y \<and> x \<le> y * cc ^ k \<and> y \<le> x * cc ^ k)"

definition ok :: "real \<Rightarrow> bool" where
  "ok X = ((X = 0 \<or> 1 / 2 ^ 1020 \<le> X) \<and> X \<le> 2 ^ 1020)"

definition rng :: "real \<Rightarrow> real \<Rightarrow> real \<Rightarrow> bool" where
  "rng lo hi A = (A = 0 \<or> (lo \<le> A \<and> A \<le> hi))"

definition eta :: real where "eta = 2 powr (- 1075)"

definition lb :: "num \<Rightarrow> real \<Rightarrow> bool" where
  "lb n L = (n = PInf \<or> (\<exists>r. n = Fin r \<and> 0 \<le> r \<and> L \<le> r \<and> (r = 0 \<or> 2 * eta \<le> r)))"

section \<open>Constructor: linking lemmas\<close>

lemma Quaternion4_is_ctor:
  "Quaternion [JNum w, JNum x, JNum y, JNum z] = Inr (num_quat (Quaternion4 w x y z))"
  by (simp add: Quaternion_def Quaternion4_def num_quat_def)

lemma Quaternion0_is_ctor: "Quaternion [] = Inr (num_quat Quaternion0)"
  by (simp add: Quaternion_def Quaternion0_def num_quat_def)

section \<open>Constructor: claims\<close>

text \<open>
  Claim C10. Called with an argument count that is neither 1 nor 4 (none, two, three, five
  or more arguments), the constructor takes the default branch of its switch: it reads none
  of the arguments and builds the identity quaternion \<open>(1, 0, 0, 0)\<close>.
\<close>

theorem ctor_other_arity_identity:
  assumes "length arguments \<noteq> 1" and "length arguments \<noteq> 4"
  shows "Quaternion arguments = Inr \<lparr> qw = JNum 1, qx = JNum 0, qy = JNum 0, qz = JNum 0 \<rparr>"
  using assms by (simp add: Quaternion_def)

theorem ctor_other_arity_identity_witness:
  "length [JNum 5, JNum 6, JNum 7] \<noteq> 1 \<and> length [JNum 5, JNum 6, JNum 7] \<noteq> 4
   \<and> Quaternion [JNum 5, JNum 6, JNum 7]
       = Inr \<lparr> qw = JNum 1, qx = JNum 0, qy = JNum 0, qz = JNum 0 \<rparr>"
  using ctor_other_arity_identity [of "[JNum 5, JNum 6, JNum 7]"] by simp

text \<open>
  Claim C7. Constructed from one aggregate, the quaternion is to take \<open>w\<close> from element 0
  or field \<open>w\<close> when it is there and 1 otherwise, and \<open>x, y, z\<close> from elements 1, 2, 3 or
  fields \<open>x, y, z\<close> when they are there and 0 otherwise, a field that is there with the
  value 0 coming out as 0. The constructor does so for \<open>w\<close>, which it tests against
  \<^verbatim>\<open>undefined\<close> (lines 18-24), and \<^verbatim>\<open>new Quaternion([1,2,3,4]).toArray()\<close> is
  \<^verbatim>\<open>[1,2,3,4]\<close>. For \<open>x, y, z\<close> it chains \<^verbatim>\<open>||\<close> (lines 25-27), which tests for a
  truthy value and not for presence: in \<^verbatim>\<open>{x: 0, 1: 9}\<close> the field \<open>x\<close> is there with the
  value 0 and the quaternion gets \<open>x = 9\<close>, and in \<^verbatim>\<open>[1, NaN, 3, 4]\<close> element 1 is there
  and the quaternion gets \<open>x = 0\<close>. The same values in the place of \<open>w\<close> are kept.
\<close>

theorem ctor_falsy_default:
  "Quaternion [JObj [(''x'', JNum 0), (''1'', JNum 9)]]
     = Inr \<lparr> qw = JNum 1, qx = JNum 9, qy = JNum 0, qz = JNum 0 \<rparr>
   \<and> Quaternion [JObj [(''w'', JNum 0), (''0'', JNum 9)]]
     = Inr \<lparr> qw = JNum 0, qx = JNum 0, qy = JNum 0, qz = JNum 0 \<rparr>
   \<and> Quaternion [JArr [JNum 1, JNaN, JNum 3, JNum 4]]
     = Inr \<lparr> qw = JNum 1, qx = JNum 0, qy = JNum 3, qz = JNum 4 \<rparr>
   \<and> Quaternion [JArr [JNaN, JNum 2, JNum 3, JNum 4]]
     = Inr \<lparr> qw = JNaN, qx = JNum 2, qy = JNum 3, qz = JNum 4 \<rparr>
   \<and> map_sum id toArray (Quaternion [JArr [JNum 1, JNum 2, JNum 3, JNum 4]])
     = Inr [JNum 1, JNum 2, JNum 3, JNum 4]"
  by (simp add: Quaternion_def toArray_def js_or_def key_of_index.simps)

section \<open>Algebra, matrix, normalization and interpolation: lemmas\<close>

lemma quat_eqI:
  "qw a = qw b \<Longrightarrow> qx a = qx b \<Longrightarrow> qy a = qy b \<Longrightarrow> qz a = qz b \<Longrightarrow> (a::quaternion) = b"
  by simp

lemma mult_sel:
  "qw (mult a b) = qw b * qw a - qx b * qx a - qy b * qy a - qz b * qz a"
  "qx (mult a b) = qy a * qz b - qz a * qy b + qw a * qx b + qx a * qw b"
  "qy (mult a b) = qz a * qx b - qx a * qz b + qw a * qy b + qy a * qw b"
  "qz (mult a b) = qx a * qy b - qy a * qx b + qw a * qz b + qz a * qw b"
  by (simp_all add: mult_def Quaternion4_def)

lemma conjugate_sel:
  "qw (conjugate q) = qw q" "qx (conjugate q) = - qx q"
  "qy (conjugate q) = - qy q" "qz (conjugate q) = - qz q"
  by (simp_all add: conjugate_def Quaternion4_def)

lemma pure_sel:
  "qw (pure_quat v) = 0" "qx (pure_quat v) = vx v"
  "qy (pure_quat v) = vy v" "qz (pure_quat v) = vz v"
  by (simp_all add: pure_quat_def Quaternion4_def)



lemma sandwich_scalar: "qw (mult (mult q (pure_quat v)) (conjugate q)) = 0"
  by (simp add: mult_sel conjugate_sel pure_sel algebra_simps)

lemma rotate_sel:
  "vx (rotate q v) = qx (mult (mult q (pure_quat v)) (conjugate q))"
  "vy (rotate q v) = qy (mult (mult q (pure_quat v)) (conjugate q))"
  "vz (rotate q v) = qz (mult (mult q (pure_quat v)) (conjugate q))"
  by (simp_all add: rotate_def inverse_def pure_quat_def Vec3_def Let_def)

lemma pure_rotate: "pure_quat (rotate q v) = mult (mult q (pure_quat v)) (conjugate q)"
  by (rule quat_eqI) (simp_all only: pure_sel rotate_sel sandwich_scalar)

lemma vec3_eqI: "vx a = vx b \<Longrightarrow> vy a = vy b \<Longrightarrow> vz a = vz b \<Longrightarrow> (a::vec3) = b"
  by simp

lemma norm2_mult: "norm2 (mult a b) = norm2 a * norm2 b"
  by (simp add: norm2_def mult_sel algebra_simps)

lemma norm2_conjugate: "norm2 (conjugate q) = norm2 q"
  by (simp add: norm2_def conjugate_sel)

lemma norm2_pure: "norm2 (pure_quat v) = vx v * vx v + vy v * vy v + vz v * vz v"
  by (simp add: norm2_def pure_sel)

lemma rotate_norm2:
  "vx (rotate q v) * vx (rotate q v) + vy (rotate q v) * vy (rotate q v) + vz (rotate q v) * vz (rotate q v)
   = norm2 q * norm2 q * (vx v * vx v + vy v * vy v + vz v * vz v)"
proof -
  have "norm2 (pure_quat (rotate q v)) = norm2 q * norm2 (pure_quat v) * norm2 q"
    by (simp only: pure_rotate norm2_mult norm2_conjugate)
  then show ?thesis by (simp add: norm2_pure mult_ac)
qed

lemma matrix_list:
  "matrix q =
     [1 - 2 * (qy q * qy q) - 2 * (qz q * qz q), 2 * (qx q * qy q) + 2 * (qz q * qw q),
      2 * (qx q * qz q) - 2 * (qy q * qw q),
      2 * (qx q * qy q) - 2 * (qz q * qw q), 1 - 2 * (qx q * qx q) - 2 * (qz q * qz q),
      2 * (qy q * qz q) + 2 * (qx q * qw q),
      2 * (qx q * qz q) + 2 * (qy q * qw q), 2 * (qy q * qz q) - 2 * (qx q * qw q),
      1 - 2 * (qx q * qx q) - 2 * (qy q * qy q)]"
  by (simp add: matrix_def Mat33_def Let_def)

lemma matrix_col_major:
  assumes "unit_quat q"
  shows "Mat33_col_major_apply (matrix q) v = rotate q v"
proof (rule vec3_eqI)
  from assms have u: "qw q * qw q + qx q * qx q + qy q * qy q + qz q * qz q = 1"
    by (simp add: unit_quat_def)
  show "vx (Mat33_col_major_apply (matrix q) v) = vx (rotate q v)"
    using u by (simp add: Mat33_col_major_apply_def matrix_list Vec3_def rotate_sel
        mult_sel conjugate_sel pure_sel) algebra
  show "vy (Mat33_col_major_apply (matrix q) v) = vy (rotate q v)"
    using u by (simp add: Mat33_col_major_apply_def matrix_list Vec3_def rotate_sel
        mult_sel conjugate_sel pure_sel) algebra
  show "vz (Mat33_col_major_apply (matrix q) v) = vz (rotate q v)"
    using u by (simp add: Mat33_col_major_apply_def matrix_list Vec3_def rotate_sel
        mult_sel conjugate_sel pure_sel) algebra
qed

lemma unit_conjugate: "unit_quat q \<Longrightarrow> unit_quat (conjugate q)"
  by (simp add: unit_quat_def conjugate_sel)

lemma matrix_conjugate_row_major:
  "Mat33_row_major_apply (matrix q) v = Mat33_col_major_apply (matrix (conjugate q)) v"
  by (simp add: Mat33_row_major_apply_def Mat33_col_major_apply_def matrix_list conjugate_sel)

lemma matrix_identity: "matrix identity = [1, 0, 0, 0, 1, 0, 0, 0, 1]"
  by (simp add: matrix_def identity_def Quaternion4_def Mat33_def)

lemma slerp_unfold:
  assumes "\<bar>dot a b\<bar> < 1"
  shows "slerp a b t =
    (if sqrt (1 - dot a b * dot a b) < 1 / 1000 then
       Some (Quaternion4 (qw a * 0.5 + qw b * 0.5) (qx a * 0.5 + qx b * 0.5)
                         (qy a * 0.5 + qy b * 0.5) (qz a * 0.5 + qz b * 0.5))
     else
       Some (Quaternion4
         (qw a * (sin ((1 - t) * arccos (dot a b)) / sqrt (1 - dot a b * dot a b))
            + qw b * (sin (t * arccos (dot a b)) / sqrt (1 - dot a b * dot a b)))
         (qx a * (sin ((1 - t) * arccos (dot a b)) / sqrt (1 - dot a b * dot a b))
            + qx b * (sin (t * arccos (dot a b)) / sqrt (1 - dot a b * dot a b)))
         (qy a * (sin ((1 - t) * arccos (dot a b)) / sqrt (1 - dot a b * dot a b))
            + qy b * (sin (t * arccos (dot a b)) / sqrt (1 - dot a b * dot a b)))
         (qz a * (sin ((1 - t) * arccos (dot a b)) / sqrt (1 - dot a b * dot a b))
            + qz b * (sin (t * arccos (dot a b)) / sqrt (1 - dot a b * dot a b)))))"
proof -
  let ?c = "dot a b"
  from assms have c1: "- 1 \<le> ?c" "?c \<le> 1" "\<not> 1 \<le> \<bar>?c\<bar>" by auto
  from assms have "?c * ?c < 1"
    using abs_square_less_1 [of ?c] by (simp add: power2_eq_square)
  then have pos: "0 < 1 - ?c * ?c" by simp
  then have spos: "0 < sqrt (1 - ?c * ?c)" by simp
  have acos: "js_acos ?c = Some (arccos ?c)" using c1 by (simp add: js_acos_def)
  have sq: "js_sqrt (1 - ?c * ?c) = Some (sqrt (1 - ?c * ?c))"
    using pos by (simp add: js_sqrt_def)
  have dv: "\<And>x. js_div x (sqrt (1 - ?c * ?c)) = Some (x / sqrt (1 - ?c * ?c))"
    using spos by (simp add: js_div_def)
  have ab: "\<bar>sqrt (1 - ?c * ?c)\<bar> = sqrt (1 - ?c * ?c)" using spos by simp
  have "slerp a b t =
    (if \<bar>sqrt (1 - ?c * ?c)\<bar> < 0.001 then
       Some (Quaternion4 (qw a * 0.5 + qw b * 0.5) (qx a * 0.5 + qx b * 0.5)
                         (qy a * 0.5 + qy b * 0.5) (qz a * 0.5 + qz b * 0.5))
     else do {
       ratioA \<leftarrow> js_div (sin ((1 - t) * arccos ?c)) (sqrt (1 - ?c * ?c));
       ratioB \<leftarrow> js_div (sin (t * arccos ?c)) (sqrt (1 - ?c * ?c));
       Some (Quaternion4 (qw a * ratioA + qw b * ratioB) (qx a * ratioA + qx b * ratioB)
                         (qy a * ratioA + qy b * ratioB) (qz a * ratioA + qz b * ratioB)) })"
    unfolding slerp_def Let_def dot_def [symmetric]
    by (simp only: c1 if_False acos sq bind.bind_lunit)
  then show ?thesis
    by (simp only: dv ab bind.bind_lunit) simp
qed

lemma sqrt_near_pair: "sqrt (1 - (2002000 / 2002001) * (2002000 / 2002001)) = (2001 / 2002001 :: real)"
  by (rule real_sqrt_unique) (simp_all add: power2_eq_square)

section \<open>Algebra: claims\<close>


text \<open>
  Claim C4. The inverse of \<open>q\<close> is its conjugate \<open>(w, -x, -y, -z)\<close>, and for a quaternion
  \<open>q\<close> of unit length \<open>q.mult(q.inverse())\<close> is the identity quaternion \<open>(1, 0, 0, 0)\<close>
  (exactly so over the reals, hence approximately).
\<close>

theorem mult_inverse_identity:
  assumes "unit_quat q"
  shows "mult q (inverse q) = Quaternion4 1 0 0 0
         \<and> identity = Quaternion4 1 0 0 0
         \<and> inverse q = conjugate q
         \<and> conjugate q = Quaternion4 (qw q) (- qx q) (- qy q) (- qz q)"
proof -
  have "mult q (inverse q) = Quaternion4 1 0 0 0"
  proof (rule quat_eqI)
    from assms show "qw (mult q (inverse q)) = qw (Quaternion4 1 0 0 0)"
      by (simp add: mult_sel inverse_def conjugate_sel Quaternion4_def unit_quat_def)
  qed (simp_all add: mult_sel inverse_def conjugate_sel Quaternion4_def)
  then show ?thesis by (simp add: identity_def inverse_def conjugate_def)
qed

theorem mult_inverse_identity_witness:
  "unit_quat (Quaternion4 (3/5) 0 0 (4/5))
   \<and> mult (Quaternion4 (3/5) 0 0 (4/5)) (inverse (Quaternion4 (3/5) 0 0 (4/5)))
       = Quaternion4 1 0 0 0"
proof -
  have u: "unit_quat (Quaternion4 (3/5) 0 0 (4/5))"
    by (simp add: unit_quat_def Quaternion4_def)
  from mult_inverse_identity [OF u]
  have "mult (Quaternion4 (3/5) 0 0 (4/5)) (inverse (Quaternion4 (3/5) 0 0 (4/5)))
          = Quaternion4 1 0 0 0"
    by (rule conjunct1)
  with u show ?thesis by blast
qed

text \<open>
  Claim C6. \<open>rotate(q, v)\<close> is the vector part of
  \<open>q.mult((0, v.x, v.y, v.z)).mult(q.inverse())\<close>, and for a quaternion \<open>q\<close> of unit
  length the Euclidean magnitude of \<open>rotate(q, v)\<close> is the magnitude of \<open>v\<close>.
\<close>

theorem rotate_preserves_length:
  assumes "unit_quat q"
  shows "Vec3_length (rotate q v) = Vec3_length v
         \<and> rotate q v = Vec3 (qx (mult (mult q (pure_quat v)) (inverse q)))
                              (qy (mult (mult q (pure_quat v)) (inverse q)))
                              (qz (mult (mult q (pure_quat v)) (inverse q)))"
proof -
  from assms have "norm2 q = 1" by (simp add: unit_quat_def norm2_def)
  then have "Vec3_length (rotate q v) = Vec3_length v"
    unfolding Vec3_length_def by (simp only: rotate_norm2) simp
  moreover have "rotate q v = Vec3 (qx (mult (mult q (pure_quat v)) (inverse q)))
                              (qy (mult (mult q (pure_quat v)) (inverse q)))
                              (qz (mult (mult q (pure_quat v)) (inverse q)))"
    by (simp add: rotate_def pure_quat_def Let_def)
  ultimately show ?thesis by simp
qed

theorem rotate_preserves_length_witness:
  "unit_quat (Quaternion4 (3/5) 0 0 (4/5))
   \<and> Vec3_length (rotate (Quaternion4 (3/5) 0 0 (4/5)) (Vec3 3 0 4)) = 5"
proof -
  have u: "unit_quat (Quaternion4 (3/5) 0 0 (4/5))"
    by (simp add: unit_quat_def Quaternion4_def)
  have "Vec3_length (Vec3 3 0 4) = sqrt (5 * 5)"
    by (simp add: Vec3_length_def Vec3_def)
  then have len: "Vec3_length (Vec3 3 0 4) = 5" by (simp only: real_sqrt_mult_self) simp
  from rotate_preserves_length [OF u, of "Vec3 3 0 4"]
  have "Vec3_length (rotate (Quaternion4 (3/5) 0 0 (4/5)) (Vec3 3 0 4)) = Vec3_length (Vec3 3 0 4)"
    by (rule conjunct1)
  with len have "Vec3_length (rotate (Quaternion4 (3/5) 0 0 (4/5)) (Vec3 3 0 4)) = 5"
    by (simp only:)
  with u show ?thesis by blast
qed

section \<open>Matrix conversion: claim\<close>

text \<open>
  Claim C1, as stated: for a unit quaternion \<open>q\<close> the nine values of \<open>matrix(q)\<close>, read in
  row-major order, are the rotation matrix equivalent to \<open>q\<close>. That fails: at the unit
  quaternion \<open>(3/5, 0, 0, 4/5)\<close> the quaternion rotates \<open>(1, 0, 0)\<close> to
  \<open>(-7/25, 24/25, 0)\<close>, and the nine values read in row-major order send it to
  \<open>(-7/25, -24/25, 0)\<close>.
\<close>

theorem matrix_row_major_counterexample:
  "unit_quat (Quaternion4 (3/5) 0 0 (4/5))
   \<and> rotate (Quaternion4 (3/5) 0 0 (4/5)) (Vec3 1 0 0) = Vec3 (- 7/25) (24/25) 0
   \<and> Mat33_row_major_apply (matrix (Quaternion4 (3/5) 0 0 (4/5))) (Vec3 1 0 0)
       = Vec3 (- 7/25) (- 24/25) 0
   \<and> Mat33_row_major_apply (matrix (Quaternion4 (3/5) 0 0 (4/5))) (Vec3 1 0 0)
       \<noteq> rotate (Quaternion4 (3/5) 0 0 (4/5)) (Vec3 1 0 0)"
  by (simp add: unit_quat_def Quaternion4_def rotate_def mult_def inverse_def conjugate_def
      Vec3_def Mat33_row_major_apply_def matrix_def Mat33_def)

text \<open>
  Claim C1, amended. \<open>matrix(q)\<close> is a flat sequence of nine values, the nine terms of the
  standard quaternion-to-matrix formula laid out in column-major order: for a unit
  quaternion \<open>q\<close>, the matrix whose entry in row i and column j is the value at index
  3 j + i rotates every vector as \<open>q\<close> does. Read in row-major order the nine values are
  the transpose, the rotation matrix of the inverse of \<open>q\<close>. The identity quaternion gives
  \<open>[1,0,0, 0,1,0, 0,0,1]\<close>.
\<close>

theorem matrix_column_major_rotation:
  assumes "unit_quat q"
  shows "length (matrix q) = 9
         \<and> Mat33_col_major_apply (matrix q) v = rotate q v
         \<and> Mat33_row_major_apply (matrix q) v = rotate (inverse q) v
         \<and> matrix identity = [1, 0, 0, 0, 1, 0, 0, 0, 1]"
proof -
  have "length (matrix q) = 9" by (simp add: matrix_list)
  moreover from assms have "Mat33_col_major_apply (matrix q) v = rotate q v"
    by (rule matrix_col_major)
  moreover from assms have "Mat33_row_major_apply (matrix q) v = rotate (inverse q) v"
    by (simp only: matrix_conjugate_row_major inverse_def matrix_col_major unit_conjugate)
  ultimately show ?thesis using matrix_identity by blast
qed

theorem matrix_column_major_rotation_witness:
  "unit_quat (Quaternion4 (3/5) 0 0 (4/5))
   \<and> Mat33_col_major_apply (matrix (Quaternion4 (3/5) 0 0 (4/5))) (Vec3 1 0 0)
       = rotate (Quaternion4 (3/5) 0 0 (4/5)) (Vec3 1 0 0)
   \<and> matrix (Quaternion4 (3/5) 0 0 (4/5)) = [- 7/25, 24/25, 0, - 24/25, - 7/25, 0, 0, 0, 1]"
proof -
  have u: "unit_quat (Quaternion4 (3/5) 0 0 (4/5))"
    by (simp add: unit_quat_def Quaternion4_def)
  have "matrix (Quaternion4 (3/5) 0 0 (4/5)) = [- 7/25, 24/25, 0, - 24/25, - 7/25, 0, 0, 0, 1]"
    by (simp add: matrix_list Quaternion4_def)
  with u matrix_column_major_rotation [OF u, of "Vec3 1 0 0"] show ?thesis by blast
qed

section \<open>Double-precision arithmetic: lemmas\<close>

lemma round_even_cases:
  "round_even q = \<lfloor>q\<rfloor> \<and> q - of_int \<lfloor>q\<rfloor> \<le> 1 / 2
   \<or> round_even q = \<lfloor>q\<rfloor> + 1 \<and> 1 / 2 \<le> q - of_int \<lfloor>q\<rfloor>"
  by (simp add: round_even_def Let_def)

lemma round_even_err: "\<bar>of_int (round_even q) - q\<bar> \<le> 1 / 2"
proof -
  have "of_int \<lfloor>q\<rfloor> \<le> q" and "q < of_int \<lfloor>q\<rfloor> + 1" by linarith+
  with round_even_cases [of q] show ?thesis
  proof (elim disjE conjE)
    assume "round_even q = \<lfloor>q\<rfloor>" and "q - of_int \<lfloor>q\<rfloor> \<le> 1 / 2"
      and "of_int \<lfloor>q\<rfloor> \<le> q"
    then show ?thesis by simp
  next
    assume e: "round_even q = \<lfloor>q\<rfloor> + 1" and "1 / 2 \<le> q - of_int \<lfloor>q\<rfloor>"
      and "q < of_int \<lfloor>q\<rfloor> + 1"
    then have "\<bar>(of_int \<lfloor>q\<rfloor> + 1) - q\<bar> \<le> 1 / 2" by linarith
    then show ?thesis by (simp add: e)
  qed
qed

lemma round_even_ge_int: "of_int n \<le> q \<Longrightarrow> n \<le> round_even q"
proof -
  assume "of_int n \<le> q"
  then have "n \<le> \<lfloor>q\<rfloor>" by (simp add: le_floor_iff)
  with round_even_cases [of q] show ?thesis by linarith
qed

lemma round_even_le_int: "q \<le> of_int n \<Longrightarrow> round_even q \<le> n"
proof -
  assume a: "q \<le> of_int n"
  from round_even_cases [of q] show ?thesis
  proof (elim disjE conjE)
    assume "round_even q = \<lfloor>q\<rfloor>"
    moreover have "\<lfloor>q\<rfloor> \<le> n" using a by (simp add: floor_le_iff)
    ultimately show ?thesis by simp
  next
    assume r: "round_even q = \<lfloor>q\<rfloor> + 1" and h: "1 / 2 \<le> q - of_int \<lfloor>q\<rfloor>"
    from h a have "of_int \<lfloor>q\<rfloor> < (of_int n :: real)" by linarith
    then have "\<lfloor>q\<rfloor> < n" by simp
    with r show ?thesis by simp
  qed
qed

lemma round_even_of_int: "round_even (of_int n) = n"
  using round_even_ge_int [of n "of_int n"] round_even_le_int [of "of_int n" n] by simp

lemma ulp_pos: "0 < ulp x"
  by (simp add: ulp_def)

lemma ulp_ge_min: "2 powr (- 1074) \<le> ulp x"
  unfolding ulp_def by (rule powr_mono) (simp_all add: ulp_exp_def)

lemma ulp_normal:
  assumes "2 powr (- 1022) \<le> \<bar>x\<bar>"
  shows "ulp x \<le> \<bar>x\<bar> * 2 powr (- 52)"
proof -
  have "(0::real) < 2 powr (- 1022)" by simp
  with assms have pos: "0 < \<bar>x\<bar>" by linarith
  have "log 2 (2 powr (- 1022)) \<le> log 2 \<bar>x\<bar>"
    using assms pos by (subst log_le_cancel_iff) simp_all
  then have "- 1022 \<le> log 2 \<bar>x\<bar>" by simp
  then have "- 1022 \<le> \<lfloor>log 2 \<bar>x\<bar>\<rfloor>" by (simp add: le_floor_iff)
  then have "- 1074 \<le> \<lfloor>log 2 \<bar>x\<bar>\<rfloor> - 52" by linarith
  then have e: "ulp_exp x = \<lfloor>log 2 \<bar>x\<bar>\<rfloor> - 52" by (simp only: ulp_exp_def max_absorb1)
  have "ulp x = 2 powr (of_int \<lfloor>log 2 \<bar>x\<bar>\<rfloor> - 52)" by (simp add: ulp_def e)
  also have "\<dots> \<le> 2 powr (log 2 \<bar>x\<bar> - 52)" by (rule powr_mono) simp_all
  also have "\<dots> = \<bar>x\<bar> * 2 powr (- 52)" using pos by (simp add: powr_diff powr_minus field_simps)
  finally show ?thesis .
qed

lemma ulp_subnormal:
  assumes "x \<noteq> 0" and "\<bar>x\<bar> < 2 powr (- 1022)"
  shows "ulp x = 2 powr (- 1074)"
proof -
  have pos: "0 < \<bar>x\<bar>" using assms by simp
  have "log 2 \<bar>x\<bar> < log 2 (2 powr (- 1022))"
    using assms pos by (subst log_less_cancel_iff) simp_all
  then have "log 2 \<bar>x\<bar> < - 1022" by simp
  then have "\<lfloor>log 2 \<bar>x\<bar>\<rfloor> < - 1022" by (simp add: floor_less_iff)
  then have "\<lfloor>log 2 \<bar>x\<bar>\<rfloor> - 52 \<le> - 1074" by linarith
  then have "ulp_exp x = - 1074" by (simp only: ulp_exp_def max_absorb2)
  then show ?thesis by (simp add: ulp_def)
qed

lemma rd_fin_err: "\<bar>rd_fin x - x\<bar> \<le> ulp x / 2"
proof (cases "x = 0")
  case True
  then show ?thesis using ulp_pos [of x] by (simp add: rd_fin_def)
next
  case False
  let ?q = "x / ulp x"
  have "rd_fin x - x = (of_int (round_even ?q) - ?q) * ulp x"
    using False ulp_pos [of x] by (simp add: rd_fin_def field_simps)
  then have "\<bar>rd_fin x - x\<bar> = \<bar>of_int (round_even ?q) - ?q\<bar> * ulp x"
    using ulp_pos [of x] by (simp add: abs_mult)
  also have "\<dots> \<le> (1 / 2) * ulp x"
    by (rule mult_right_mono [OF round_even_err]) (simp add: ulp_pos less_imp_le)
  finally show ?thesis by simp
qed

lemma rd_fin_nonneg: "0 \<le> x \<Longrightarrow> 0 \<le> rd_fin x"
proof -
  assume "0 \<le> x"
  then have "0 \<le> x / ulp x" using ulp_pos [of x] by simp
  then have "0 \<le> round_even (x / ulp x)" using round_even_ge_int [of 0] by simp
  then show ?thesis using ulp_pos [of x] by (simp add: rd_fin_def)
qed

lemma rd_fin_nonpos: "x \<le> 0 \<Longrightarrow> rd_fin x \<le> 0"
proof -
  assume "x \<le> 0"
  then have "x / ulp x \<le> 0" using ulp_pos [of x] by (simp add: divide_le_0_iff)
  then have "round_even (x / ulp x) \<le> 0" using round_even_le_int [of _ 0] by simp
  then show ?thesis using ulp_pos [of x] by (simp add: rd_fin_def mult_le_0_iff)
qed

lemma rd_fin_nonzero_ge: "rd_fin x \<noteq> 0 \<Longrightarrow> 2 powr (- 1074) \<le> \<bar>rd_fin x\<bar>"
proof -
  assume nz: "rd_fin x \<noteq> 0"
  then have x: "x \<noteq> 0" by (auto simp: rd_fin_def)
  let ?n = "round_even (x / ulp x)"
  from nz x have "?n \<noteq> 0" by (auto simp: rd_fin_def)
  then have "1 \<le> \<bar>?n\<bar>" by linarith
  then have "(1::real) \<le> \<bar>of_int ?n\<bar>" by (metis of_int_1_le_iff of_int_abs)
  then have "ulp x \<le> \<bar>of_int ?n\<bar> * ulp x" using ulp_pos [of x] by simp
  also have "\<dots> = \<bar>rd_fin x\<bar>" using x ulp_pos [of x] by (simp add: rd_fin_def abs_mult)
  finally show ?thesis using ulp_ge_min [of x] by linarith
qed

lemma eta_pos: "0 < eta" by (simp add: eta_def)

lemma two_eta: "2 * eta = 2 powr (- 1074)"
proof -
  have "(2::real) powr (- 1074) = 2 powr (1 + (- 1075))" by simp
  also have "\<dots> = 2 powr 1 * 2 powr (- 1075)" by (rule powr_add)
  finally show ?thesis by (simp add: eta_def)
qed

lemma ulp_half_le: "x \<noteq> 0 \<Longrightarrow> ulp x / 2 \<le> \<bar>x\<bar> * 2 powr (- 53) + eta"
proof (cases "2 powr (- 1022) \<le> \<bar>x\<bar>")
  case True
  have "(2::real) powr (- 52) = 2 powr (1 + (- 53))" by simp
  also have "\<dots> = 2 powr 1 * 2 powr (- 53)" by (rule powr_add)
  finally have h: "(2::real) powr (- 52) = 2 * 2 powr (- 53)" by simp
  from ulp_normal [OF True] have "ulp x / 2 \<le> \<bar>x\<bar> * 2 powr (- 53)" by (simp add: h)
  with eta_pos show ?thesis by linarith
next
  case False
  assume nz: "x \<noteq> 0"
  with False have "ulp x = 2 powr (- 1074)" by (intro ulp_subnormal) simp_all
  then have "ulp x / 2 = eta" using two_eta by simp
  then show ?thesis by simp
qed

lemma rd_fin_err2: "\<bar>rd_fin x - x\<bar> \<le> \<bar>x\<bar> * 2 powr (- 53) + eta"
proof (cases "x = 0")
  case True
  then show ?thesis using eta_pos by (simp add: rd_fin_def)
next
  case False
  from rd_fin_err [of x] ulp_half_le [OF False] show ?thesis by linarith
qed

lemma p53_small: "2 powr (- 53) \<le> (1 / 2 :: real)"
proof -
  have "(2::real) powr (- 53) \<le> 2 powr (- 1)" by (rule powr_mono) simp_all
  then show ?thesis by (simp add: powr_minus)
qed

lemma rd_fin_lower: "0 \<le> x \<Longrightarrow> x / 2 - eta \<le> rd_fin x"
proof -
  assume x: "0 \<le> x"
  from rd_fin_err2 [of x] have "x - (x * 2 powr (- 53) + eta) \<le> rd_fin x"
    using x by linarith
  moreover have "x * 2 powr (- 53) \<le> x * (1 / 2)"
    by (rule mult_left_mono [OF p53_small x])
  ultimately show ?thesis by linarith
qed

lemma rd_fin_upper: "\<bar>rd_fin x\<bar> \<le> \<bar>x\<bar> * (3 / 2) + eta"
proof -
  from rd_fin_err2 [of x]
  have "\<bar>rd_fin x\<bar> \<le> \<bar>x\<bar> + (\<bar>x\<bar> * 2 powr (- 53) + eta)" by linarith
  moreover have "\<bar>x\<bar> * 2 powr (- 53) \<le> \<bar>x\<bar> * (1 / 2)"
    by (rule mult_left_mono [OF p53_small]) simp
  ultimately show ?thesis by linarith
qed

lemma eta_le_one: "eta \<le> 1"
proof -
  have "eta \<le> 2 powr 0" unfolding eta_def by (rule powr_mono) simp_all
  then show ?thesis by simp
qed

lemma rd_finite:
  assumes "\<bar>x\<bar> \<le> 2 ^ 1022"
  shows "rd x = Fin (rd_fin x)"
proof -
  have "\<bar>rd_fin x\<bar> \<le> \<bar>x\<bar> * (3 / 2) + eta" by (rule rd_fin_upper)
  also have "\<dots> \<le> 2 ^ 1022 * (3 / 2) + 1" using assms eta_le_one by simp
  also have "\<dots> < 2 ^ 1024" by simp
  finally have "\<not> 2 ^ 1024 \<le> \<bar>rd_fin x\<bar>" by simp
  then show ?thesis by (simp add: rd_def Let_def)
qed

lemma rd_lb: "0 \<le> x \<Longrightarrow> lb (rd x) (x / 2 - eta)"
proof -
  assume x: "0 \<le> x"
  show ?thesis
  proof (cases "2 ^ 1024 \<le> \<bar>rd_fin x\<bar>")
    case True
    then have "rd_fin x \<noteq> 0" by auto
    then have "x \<noteq> 0" by (auto simp: rd_fin_def)
    with x True have "rd x = PInf" by (simp add: rd_def Let_def)
    then show ?thesis by (simp add: lb_def)
  next
    case False
    then have e: "rd x = Fin (rd_fin x)" by (simp add: rd_def Let_def)
    have "rd_fin x = 0 \<or> 2 * eta \<le> rd_fin x"
      using rd_fin_nonzero_ge [of x] rd_fin_nonneg [OF x] two_eta by auto
    with e rd_fin_nonneg [OF x] rd_fin_lower [OF x] show ?thesis by (simp add: lb_def)
  qed
qed

lemma lb_weaken: "lb n L \<Longrightarrow> L' \<le> L \<Longrightarrow> lb n L'"
  by (auto simp: lb_def)

lemma fadd_lb: "lb n L \<Longrightarrow> lb m K \<Longrightarrow> lb (fadd n m) (L / 2 - eta) \<and> lb (fadd n m) (K / 2 - eta)"
proof -
  assume n: "lb n L" and m: "lb m K"
  show ?thesis
  proof (cases "n = PInf \<or> m = PInf")
    case True
    with n m have "fadd n m = PInf" by (auto simp: lb_def)
    then show ?thesis by (simp add: lb_def)
  next
    case False
    with n m obtain r t where r: "n = Fin r" "0 \<le> r" "L \<le> r" and t: "m = Fin t" "0 \<le> t" "K \<le> t"
      by (auto simp: lb_def)
    have s: "0 \<le> r + t" using r t by simp
    have e: "fadd n m = rd (r + t)" by (simp add: r t)
    from rd_lb [OF s] have "lb (fadd n m) ((r + t) / 2 - eta)" by (simp add: e)
    then show ?thesis using r t by (auto intro: lb_weaken)
  qed
qed

lemma fsqrt_lb: "lb n L \<Longrightarrow> lb (fsqrt n) (sqrt L / 2 - eta)"
proof -
  assume n: "lb n L"
  show ?thesis
  proof (cases "n = PInf")
    case True
    then show ?thesis by (simp add: lb_def)
  next
    case False
    with n obtain r where r: "n = Fin r" "0 \<le> r" "L \<le> r" by (auto simp: lb_def)
    have "lb (rd (sqrt r)) (sqrt r / 2 - eta)" by (rule rd_lb) (simp add: r)
    moreover have "sqrt L \<le> sqrt r" using r by simp
    ultimately show ?thesis using r by (auto intro: lb_weaken)
  qed
qed

lemma fsq_lb: "lb (fmul (Fin v) (Fin v)) (v * v / 2 - eta)"
  using rd_lb [of "v * v"] by simp

lemma eta_small: "eta \<le> 1 / 2 ^ 300"
proof -
  have "eta \<le> 2 powr (- 300)" unfolding eta_def by (rule powr_mono) simp_all
  also have "\<dots> = 1 / 2 powr 300" by (rule powr_minus_divide)
  also have "\<dots> = 1 / 2 ^ 300" by simp
  finally show ?thesis .
qed

lemma big_two_eta: "2 ^ 1022 * (2 * eta) = 1 / 2 ^ 52"
proof -
  have "(2::real) ^ 1022 = 2 powr 1022" by simp
  then have "2 ^ 1022 * (2 * eta) = 2 powr 1022 * 2 powr (- 1074)" by (simp only: two_eta)
  also have "\<dots> = 2 powr (1022 + (- 1074))" by (rule powr_add [symmetric])
  also have "\<dots> = 2 powr (- 52)" by simp
  also have "\<dots> = 1 / 2 powr 52" by (rule powr_minus_divide)
  also have "\<dots> = 1 / 2 ^ 52" by simp
  finally show ?thesis .
qed

lemma magnitude_lb:
  fixes w x y z :: real
  defines "q \<equiv> \<lparr> qw = Fin w, qx = Fin x, qy = Fin y, qz = Fin z \<rparr>"
  shows "lb (magnitude q) (sqrt (w * w / 16 - 2 * eta) / 2 - eta)"
    and "lb (magnitude q) (sqrt (x * x / 16 - 2 * eta) / 2 - eta)"
    and "lb (magnitude q) (sqrt (y * y / 16 - 2 * eta) / 2 - eta)"
    and "lb (magnitude q) (sqrt (z * z / 16 - 2 * eta) / 2 - eta)"
proof -
  let ?sx = "fmul (Fin x) (Fin x)" and ?sy = "fmul (Fin y) (Fin y)"
  let ?sz = "fmul (Fin z) (Fin z)" and ?sw = "fmul (Fin w) (Fin w)"
  let ?a1 = "fadd ?sx ?sy"
  let ?a2 = "fadd ?a1 ?sz"
  let ?a3 = "fadd ?a2 ?sw"
  have m: "magnitude q = fsqrt ?a3" by (simp add: magnitude_def q_def)
  note e = eta_pos
  have x1: "lb ?a1 ((x * x / 2 - eta) / 2 - eta)" and y1: "lb ?a1 ((y * y / 2 - eta) / 2 - eta)"
    using fadd_lb [OF fsq_lb [of x] fsq_lb [of y]] by simp_all
  have x2: "lb ?a2 (((x * x / 2 - eta) / 2 - eta) / 2 - eta)"
    and z2: "lb ?a2 ((z * z / 2 - eta) / 2 - eta)"
    using fadd_lb [OF x1 fsq_lb [of z]] by simp_all
  have y2: "lb ?a2 (((y * y / 2 - eta) / 2 - eta) / 2 - eta)"
    using fadd_lb [OF y1 fsq_lb [of z]] by simp
  have x3: "lb ?a3 ((((x * x / 2 - eta) / 2 - eta) / 2 - eta) / 2 - eta)"
    and w3: "lb ?a3 ((w * w / 2 - eta) / 2 - eta)"
    using fadd_lb [OF x2 fsq_lb [of w]] by simp_all
  have y3: "lb ?a3 ((((y * y / 2 - eta) / 2 - eta) / 2 - eta) / 2 - eta)"
    using fadd_lb [OF y2 fsq_lb [of w]] by simp
  have z3: "lb ?a3 (((z * z / 2 - eta) / 2 - eta) / 2 - eta)"
    using fadd_lb [OF z2 fsq_lb [of w]] by simp
  have sq: "\<And>v::real. 0 \<le> v * v" by simp
  have "x * x / 16 - 2 * eta \<le> (((x * x / 2 - eta) / 2 - eta) / 2 - eta) / 2 - eta"
    using e by (simp add: field_simps)
  then have "lb ?a3 (x * x / 16 - 2 * eta)" by (rule lb_weaken [OF x3])
  then show "lb (magnitude q) (sqrt (x * x / 16 - 2 * eta) / 2 - eta)"
    unfolding m by (rule fsqrt_lb)
  have "y * y / 16 - 2 * eta \<le> (((y * y / 2 - eta) / 2 - eta) / 2 - eta) / 2 - eta"
    using e by (simp add: field_simps)
  then have "lb ?a3 (y * y / 16 - 2 * eta)" by (rule lb_weaken [OF y3])
  then show "lb (magnitude q) (sqrt (y * y / 16 - 2 * eta) / 2 - eta)"
    unfolding m by (rule fsqrt_lb)
  have "z * z / 16 - 2 * eta \<le> ((z * z / 2 - eta) / 2 - eta) / 2 - eta"
    using e sq [of z] by (simp add: field_simps)
  then have "lb ?a3 (z * z / 16 - 2 * eta)" by (rule lb_weaken [OF z3])
  then show "lb (magnitude q) (sqrt (z * z / 16 - 2 * eta) / 2 - eta)"
    unfolding m by (rule fsqrt_lb)
  have "w * w / 16 - 2 * eta \<le> (w * w / 2 - eta) / 2 - eta"
    using e sq [of w] by (simp add: field_simps)
  then have "lb ?a3 (w * w / 16 - 2 * eta)" by (rule lb_weaken [OF w3])
  then show "lb (magnitude q) (sqrt (w * w / 16 - 2 * eta) / 2 - eta)"
    unfolding m by (rule fsqrt_lb)
qed

lemma lin1: "e \<le> a \<Longrightarrow> b < vv \<Longrightarrow> a * 2 \<le> b * (5 / 144) \<Longrightarrow> 2 * e \<le> vv * (5 / 144 :: real)"
  by linarith

lemma lin2: "e \<le> a \<Longrightarrow> b < av \<Longrightarrow> a \<le> b / 156 \<Longrightarrow> e \<le> av / (156 :: real)"
  by linarith

lemma lin3: "a \<le> t \<Longrightarrow> b \<le> a \<Longrightarrow> av \<le> b \<Longrightarrow> av \<le> (t :: real)"
  by linarith

lemma fdiv_finite:
  assumes m: "lb m (sqrt (v * v / 16 - 2 * eta) / 2 - eta)" and nz: "m \<noteq> Fin 0"
  shows "\<exists>r. fdiv (Fin v) m = Fin r"
proof (cases "m = PInf")
  case True
  then show ?thesis by simp
next
  case False
  with m obtain r where r0: "m = Fin r" "0 \<le> r"
    "sqrt (v * v / 16 - 2 * eta) / 2 - eta \<le> r" "r = 0 \<or> 2 * eta \<le> r"
    unfolding lb_def by blast
  from nz r0(1) have "r \<noteq> 0" by simp
  with r0 have r: "m = Fin r" "0 < r" "sqrt (v * v / 16 - 2 * eta) / 2 - eta \<le> r"
    "2 * eta \<le> r"
    by simp_all
  have bound: "\<bar>v\<bar> \<le> 2 ^ 1022 * r"
  proof (cases "\<bar>v\<bar> \<le> 1 / 2 ^ 100")
    case True
    have "2 ^ 1022 * (2 * eta) \<le> 2 ^ 1022 * r" using r(4) by simp
    then have "1 / 2 ^ 52 \<le> 2 ^ 1022 * r" by (simp only: big_two_eta)
    moreover have "(1::real) / 2 ^ 100 \<le> 1 / 2 ^ 52" by simp
    ultimately show ?thesis using True by (rule lin3)
  next
    case False
    then have big: "1 / 2 ^ 100 < \<bar>v\<bar>" by simp
    then have "(1 / 2 ^ 100) * (1 / 2 ^ 100) < \<bar>v\<bar> * \<bar>v\<bar>"
      by (intro mult_strict_mono) simp_all
    then have vv: "1 / 2 ^ 200 < v * v" by (simp add: abs_mult_self_eq)
    have "(1::real) / 2 ^ 300 * 2 \<le> 1 / 2 ^ 200 * (5 / 144)" by simp
    with eta_small vv have "2 * eta \<le> v * v * (5 / 144)" by (rule lin1)
    then have "v * v / 36 \<le> v * v / 16 - 2 * eta" by simp
    then have "sqrt (v * v / 36) \<le> sqrt (v * v / 16 - 2 * eta)" by (rule real_sqrt_le_mono)
    moreover have "sqrt (v * v / 36) = \<bar>v\<bar> / 6"
    proof -
      have "v * v / 36 = (\<bar>v\<bar> / 6)\<^sup>2" by (simp add: power2_eq_square)
      then have "sqrt (v * v / 36) = \<bar>\<bar>v\<bar> / 6\<bar>" by (simp only: real_sqrt_abs)
      then show ?thesis by simp
    qed
    ultimately have "\<bar>v\<bar> / 12 - eta \<le> r" using r(3) by linarith
    moreover from this have True by simp
    moreover have "(1::real) / 2 ^ 300 \<le> 1 / 2 ^ 100 / 156" by simp
    with eta_small big have "eta \<le> \<bar>v\<bar> / 156" by (rule lin2)
    ultimately have "\<bar>v\<bar> / 13 \<le> r" using r(3) by linarith
    then have "\<bar>v\<bar> \<le> 13 * r" by simp
    also have "\<dots> \<le> 2 ^ 1022 * r"
      by (rule mult_right_mono) (simp_all add: r(2) less_imp_le)
    finally show ?thesis .
  qed
  then have "\<bar>v\<bar> / r \<le> 2 ^ 1022" using r(2) by (simp only: pos_divide_le_eq)
  then have "\<bar>v / r\<bar> \<le> 2 ^ 1022" using r(2) by (simp only: abs_divide abs_of_pos)
  then have "rd (v / r) = Fin (rd_fin (v / r))" by (rule rd_finite)
  with r show ?thesis by simp
qed

lemma normalize_eq:
  "normalize q =
     (if magnitude q \<noteq> Fin 0 then
        \<lparr> qw = fdiv (qw q) (magnitude q), qx = fdiv (qx q) (magnitude q),
          qy = fdiv (qy q) (magnitude q), qz = fdiv (qz q) (magnitude q) \<rparr>
      else \<lparr> qw = Fin 1, qx = Fin 0, qy = Fin 0, qz = Fin 0 \<rparr>)"
  by (simp add: normalize_def magnitude_def Let_def)

lemma normalize_finite:
  "\<exists>w' x' y' z'. normalize \<lparr> qw = Fin w, qx = Fin x, qy = Fin y, qz = Fin z \<rparr>
       = \<lparr> qw = Fin w', qx = Fin x', qy = Fin y', qz = Fin z' \<rparr>"
proof (cases "magnitude \<lparr> qw = Fin w, qx = Fin x, qy = Fin y, qz = Fin z \<rparr> = Fin 0")
  case True
  then show ?thesis by (simp add: normalize_eq)
next
  case False
  let ?q = "\<lparr> qw = Fin w, qx = Fin x, qy = Fin y, qz = Fin z \<rparr>"
  from fdiv_finite [OF magnitude_lb(1) False] obtain w' where w: "fdiv (Fin w) (magnitude ?q) = Fin w'" ..
  from fdiv_finite [OF magnitude_lb(2) False] obtain x' where x: "fdiv (Fin x) (magnitude ?q) = Fin x'" ..
  from fdiv_finite [OF magnitude_lb(3) False] obtain y' where y: "fdiv (Fin y) (magnitude ?q) = Fin y'" ..
  from fdiv_finite [OF magnitude_lb(4) False] obtain z' where z: "fdiv (Fin z) (magnitude ?q) = Fin z'" ..
  from False w x y z show ?thesis by (simp add: normalize_eq)
qed

lemma rd_zero: "rd 0 = Fin 0"
  by (simp add: rd_def rd_fin_def)

lemma rd_overflow:
  assumes "2 ^ 1026 \<le> x"
  shows "rd x = PInf"
proof -
  have p: "(0::real) < 2 ^ 1026" by simp
  with assms have x: "0 \<le> x" by linarith
  from rd_fin_lower [OF x] eta_le_one have "x / 2 - 1 \<le> rd_fin x" by linarith
  moreover have "(2::real) ^ 1024 \<le> 2 ^ 1026 / 2 - 1" by simp
  ultimately have "2 ^ 1024 \<le> rd_fin x" using assms by linarith
  then have "2 ^ 1024 \<le> \<bar>rd_fin x\<bar>" by linarith
  moreover have "0 < x" using assms p by linarith
  ultimately show ?thesis by (simp add: rd_def Let_def)
qed

lemma rd_underflow:
  assumes "\<bar>x\<bar> < 2 powr (- 1075)"
  shows "rd x = Fin 0"
proof (cases "x = 0")
  case True
  then show ?thesis by (simp add: rd_zero)
next
  case False
  have "(2::real) powr (- 1075) \<le> 2 powr (- 1022)" by (rule powr_mono) simp_all
  with assms have "\<bar>x\<bar> < 2 powr (- 1022)" by linarith
  with False have u: "ulp x = 2 powr (- 1074)" by (rule ulp_subnormal)
  have "\<bar>x / ulp x\<bar> = \<bar>x\<bar> / (2 * eta)" by (simp add: u two_eta)
  also have "\<dots> < eta / (2 * eta)"
    using assms eta_pos by (intro divide_strict_right_mono) (simp_all add: eta_def)
  also have "\<dots> = 1 / 2" using eta_pos by simp
  finally have q: "\<bar>x / ulp x\<bar> < 1 / 2" .
  from round_even_err [of "x / ulp x"] q
  have "\<bar>real_of_int (round_even (x / ulp x))\<bar> < 1" by linarith
  then have "round_even (x / ulp x) = 0" by linarith
  then have "rd_fin x = 0" by (simp add: rd_fin_def)
  then show ?thesis by (simp add: rd_def)
qed

lemma cc_ge1: "1 \<le> cc" by (simp add: cc_def)

lemma cc_pow_ge1: "1 \<le> cc ^ k" using cc_ge1 by (rule one_le_power)

lemma cc_pow_pos: "0 < cc ^ k" using cc_pow_ge1 [of k] by linarith

lemma cc_pow_mono: "j \<le> k \<Longrightarrow> cc ^ j \<le> cc ^ k"
  using cc_ge1 by (rule power_increasing [rotated])

lemma cc20: "cc ^ 20 \<le> 2" by (simp add: cc_def power_divide)

lemma cc_pow_le2: "k \<le> 20 \<Longrightarrow> cc ^ k \<le> 2"
  using cc_pow_mono [of k 20] cc20 by linarith

lemma close_refl: "0 \<le> x \<Longrightarrow> close 0 x x"
  by (simp add: close_def)

lemma close_mono: "close j x y \<Longrightarrow> j \<le> k \<Longrightarrow> close k x y"
proof -
  assume c: "close j x y" and jk: "j \<le> k"
  from c have x: "0 \<le> x" and y: "0 \<le> y" and a: "x \<le> y * cc ^ j" and b: "y \<le> x * cc ^ j"
    by (simp_all add: close_def)
  have "y * cc ^ j \<le> y * cc ^ k" by (rule mult_left_mono [OF cc_pow_mono [OF jk] y])
  moreover have "x * cc ^ j \<le> x * cc ^ k" by (rule mult_left_mono [OF cc_pow_mono [OF jk] x])
  ultimately show ?thesis using x y a b by (simp add: close_def)
qed

lemma close_sym: "close k x y \<Longrightarrow> close k y x"
  by (simp add: close_def)

lemma close_trans: "close j x y \<Longrightarrow> close k y z \<Longrightarrow> close (j + k) x z"
proof -
  assume c: "close j x y" and d: "close k y z"
  from c have x: "0 \<le> x" and y: "0 \<le> y" and a: "x \<le> y * cc ^ j" and b: "y \<le> x * cc ^ j"
    by (simp_all add: close_def)
  from d have z: "0 \<le> z" and a': "y \<le> z * cc ^ k" and b': "z \<le> y * cc ^ k"
    by (simp_all add: close_def)
  have "y * cc ^ j \<le> (z * cc ^ k) * cc ^ j"
    by (rule mult_right_mono [OF a']) (simp add: cc_pow_pos less_imp_le)
  with a have 1: "x \<le> z * cc ^ (j + k)" by (simp add: power_add mult_ac)
  have "y * cc ^ k \<le> (x * cc ^ j) * cc ^ k"
    by (rule mult_right_mono [OF b]) (simp add: cc_pow_pos less_imp_le)
  with b' have 2: "z \<le> x * cc ^ (j + k)" by (simp add: power_add mult_ac)
  from x z 1 2 show ?thesis by (simp add: close_def)
qed

lemma close_add: "close k x y \<Longrightarrow> close k x' y' \<Longrightarrow> close k (x + x') (y + y')"
  by (simp add: close_def distrib_right)

lemma close_mult: "close j x y \<Longrightarrow> close k x' y' \<Longrightarrow> close (j + k) (x * x') (y * y')"
proof -
  assume c: "close j x y" and d: "close k x' y'"
  from c have x: "0 \<le> x" and y: "0 \<le> y" and a: "x \<le> y * cc ^ j" and b: "y \<le> x * cc ^ j"
    by (simp_all add: close_def)
  from d have x': "0 \<le> x'" and y': "0 \<le> y'" and a': "x' \<le> y' * cc ^ k" and b': "y' \<le> x' * cc ^ k"
    by (simp_all add: close_def)
  have "x * x' \<le> (y * cc ^ j) * (y' * cc ^ k)"
    by (rule mult_mono [OF a a']) (simp_all add: x' y cc_pow_pos less_imp_le)
  then have 1: "x * x' \<le> (y * y') * cc ^ (j + k)" by (simp add: power_add mult_ac)
  have "y * y' \<le> (x * cc ^ j) * (x' * cc ^ k)"
    by (rule mult_mono [OF b b']) (simp_all add: y' x cc_pow_pos less_imp_le)
  then have 2: "y * y' \<le> (x * x') * cc ^ (j + k)" by (simp add: power_add mult_ac)
  from x x' y y' 1 2 show ?thesis by (simp add: close_def)
qed

lemma close_inverse: "close k x y \<Longrightarrow> 0 < x \<Longrightarrow> 0 < y \<Longrightarrow> close k (1 / x) (1 / y)"
proof -
  assume c: "close k x y" and x: "0 < x" and y: "0 < y"
  from c have a: "x \<le> y * cc ^ k" and b: "y \<le> x * cc ^ k" by (simp_all add: close_def)
  from b x y have "1 / x \<le> (1 / y) * cc ^ k" by (simp add: field_simps)
  moreover from a x y have "1 / y \<le> (1 / x) * cc ^ k" by (simp add: field_simps)
  ultimately show ?thesis using x y by (simp add: close_def)
qed

lemma close_div:
  "close j x y \<Longrightarrow> close k x' y' \<Longrightarrow> 0 < x' \<Longrightarrow> 0 < y' \<Longrightarrow> close (j + k) (x / x') (y / y')"
  using close_mult [OF _ close_inverse, of j x y k x' y'] by simp

lemma close_sqrt: "close k x y \<Longrightarrow> close k (sqrt x) (sqrt y)"
proof -
  assume c: "close k x y"
  from c have x: "0 \<le> x" and y: "0 \<le> y" and a: "x \<le> y * cc ^ k" and b: "y \<le> x * cc ^ k"
    by (simp_all add: close_def)
  have s: "sqrt (cc ^ k) \<le> cc ^ k"
  proof -
    have "cc ^ k \<le> cc ^ k * cc ^ k" using cc_pow_ge1 [of k] cc_pow_pos [of k] by simp
    then have "sqrt (cc ^ k) \<le> sqrt (cc ^ k * cc ^ k)" by (rule real_sqrt_le_mono)
    then show ?thesis using cc_pow_pos [of k] by simp
  qed
  have "sqrt x \<le> sqrt (y * cc ^ k)" using a by (rule real_sqrt_le_mono)
  also have "\<dots> = sqrt y * sqrt (cc ^ k)" by (rule real_sqrt_mult)
  also have "\<dots> \<le> sqrt y * cc ^ k" by (rule mult_left_mono [OF s]) (simp add: y)
  finally have 1: "sqrt x \<le> sqrt y * cc ^ k" .
  have "sqrt y \<le> sqrt (x * cc ^ k)" using b by (rule real_sqrt_le_mono)
  also have "\<dots> = sqrt x * sqrt (cc ^ k)" by (rule real_sqrt_mult)
  also have "\<dots> \<le> sqrt x * cc ^ k" by (rule mult_left_mono [OF s]) (simp add: x)
  finally have 2: "sqrt y \<le> sqrt x * cc ^ k" .
  from x y 1 2 show ?thesis by (simp add: close_def)
qed

lemma close_zero_iff: "close k x y \<Longrightarrow> (x = 0) = (y = 0)"
  by (auto simp: close_def)

lemma close_bounds:
  assumes "close k x y" and "k \<le> 20"
  shows "x \<le> 2 * y" and "y \<le> 2 * x"
proof -
  from assms(1) have x: "0 \<le> x" and y: "0 \<le> y" and a: "x \<le> y * cc ^ k" and b: "y \<le> x * cc ^ k"
    by (simp_all add: close_def)
  have "y * cc ^ k \<le> y * 2" by (rule mult_left_mono [OF cc_pow_le2 [OF assms(2)] y])
  with a show "x \<le> 2 * y" by simp
  have "x * cc ^ k \<le> x * 2" by (rule mult_left_mono [OF cc_pow_le2 [OF assms(2)] x])
  with b show "y \<le> 2 * x" by simp
qed

lemma p53: "(2::real) powr (- 53) = 1 / 2 ^ 53"
proof -
  have "(2::real) powr (- 53) = 1 / 2 powr 53" by (rule powr_minus_divide)
  then show ?thesis by simp
qed

lemma p52: "(2::real) powr (- 52) = 1 / 2 ^ 52"
proof -
  have "(2::real) powr (- 52) = 1 / 2 powr 52" by (rule powr_minus_divide)
  then show ?thesis by simp
qed

lemma p1022: "(2::real) powr (- 1022) = 1 / 2 ^ 1022"
proof -
  have "(2::real) powr (- 1022) = 1 / 2 powr 1022" by (rule powr_minus_divide)
  then show ?thesis by simp
qed

lemma rd_fin_rel:
  assumes "x = 0 \<or> 1 / 2 ^ 1022 \<le> \<bar>x\<bar>"
  shows "\<bar>rd_fin x - x\<bar> \<le> \<bar>x\<bar> * (1 / 2 ^ 53)"
proof (cases "x = 0")
  case True
  then show ?thesis by (simp add: rd_fin_def)
next
  case False
  with assms have "2 powr (- 1022) \<le> \<bar>x\<bar>" by (simp add: p1022)
  from ulp_normal [OF this] have "ulp x \<le> \<bar>x\<bar> * (1 / 2 ^ 52)" by (simp only: p52)
  then have "ulp x / 2 \<le> \<bar>x\<bar> * (1 / 2 ^ 53)" by simp
  with rd_fin_err [of x] show ?thesis by linarith
qed

lemma rd_fin_sign: "0 \<le> rd_fin x * x"
proof (cases "0 \<le> x")
  case True
  with rd_fin_nonneg [OF True] show ?thesis by simp
next
  case False
  then have "x \<le> 0" by simp
  with rd_fin_nonpos [OF this] show ?thesis by (simp add: mult_nonpos_nonpos)
qed

lemma lin_up: "d \<le> t \<Longrightarrow> r \<le> x + d \<Longrightarrow> r \<le> x + (t::real)"
  by linarith

lemma lin_lo: "d \<le> t \<Longrightarrow> x - d \<le> r \<Longrightarrow> x - t \<le> (r::real)"
  by linarith

lemma abs_rd_close:
  assumes "x = 0 \<or> 1 / 2 ^ 1022 \<le> \<bar>x\<bar>"
  shows "close 1 \<bar>rd_fin x\<bar> \<bar>x\<bar>"
proof -
  let ?u = "(1::real) / 2 ^ 53"
  from rd_fin_rel [OF assms] have e: "\<bar>rd_fin x - x\<bar> \<le> \<bar>x\<bar> * ?u" .
  have "\<bar>rd_fin x\<bar> \<le> \<bar>x\<bar> + \<bar>rd_fin x - x\<bar>" by linarith
  with e have "\<bar>rd_fin x\<bar> \<le> \<bar>x\<bar> + \<bar>x\<bar> * ?u" by (rule lin_up)
  then have up: "\<bar>rd_fin x\<bar> \<le> \<bar>x\<bar> * (1 + ?u)" by (simp only: distrib_left mult_1_right)
  have "\<bar>x\<bar> - \<bar>rd_fin x - x\<bar> \<le> \<bar>rd_fin x\<bar>" by linarith
  with e have "\<bar>x\<bar> - \<bar>x\<bar> * ?u \<le> \<bar>rd_fin x\<bar>" by (rule lin_lo)
  then have lo: "\<bar>x\<bar> * (1 - ?u) \<le> \<bar>rd_fin x\<bar>" by (simp only: right_diff_distrib mult_1_right)
  have "\<bar>x\<bar> * (1 + ?u) \<le> \<bar>x\<bar> * cc" by (rule mult_left_mono) (simp_all add: cc_def)
  with up have 1: "\<bar>rd_fin x\<bar> \<le> \<bar>x\<bar> * cc ^ 1" by simp
  have "(1::real) \<le> (1 - ?u) * cc" by (simp add: cc_def)
  then have "\<bar>x\<bar> * 1 \<le> \<bar>x\<bar> * ((1 - ?u) * cc)" by (rule mult_left_mono) simp
  also have "\<dots> = (\<bar>x\<bar> * (1 - ?u)) * cc" by (simp only: mult.assoc)
  also have "\<dots> \<le> \<bar>rd_fin x\<bar> * cc" by (rule mult_right_mono [OF lo]) (simp add: cc_def)
  finally have 2: "\<bar>x\<bar> \<le> \<bar>rd_fin x\<bar> * cc ^ 1" by simp
  from 1 2 show ?thesis by (simp add: close_def)
qed

lemma round_step:
  assumes c: "close k \<bar>a\<bar> X" and X: "ok X" and k: "k \<le> 19"
  shows "rd a = Fin (rd_fin a)" and "close (Suc k) \<bar>rd_fin a\<bar> X"
proof -
  have k20: "k \<le> 20" using k by simp
  from close_bounds [OF c k20] have b1: "\<bar>a\<bar> \<le> 2 * X" and b2: "X \<le> 2 * \<bar>a\<bar>" .
  from X have "X \<le> 2 ^ 1020" by (simp add: ok_def)
  with b1 have "\<bar>a\<bar> \<le> 2 * 2 ^ 1020" by linarith
  also have "\<dots> \<le> (2::real) ^ 1022" by simp
  finally show "rd a = Fin (rd_fin a)" by (rule rd_finite)
  have n: "a = 0 \<or> 1 / 2 ^ 1022 \<le> \<bar>a\<bar>"
  proof (cases "X = 0")
    case True
    with close_zero_iff [OF c] show ?thesis by simp
  next
    case False
    with X have "1 / 2 ^ 1020 \<le> X" by (simp add: ok_def)
    with b2 have "1 / 2 ^ 1020 \<le> 2 * \<bar>a\<bar>" by linarith
    moreover have "(1::real) / 2 ^ 1020 = 4 * (1 / 2 ^ 1022)" by simp
    ultimately have "1 / 2 ^ 1022 \<le> \<bar>a\<bar>" by linarith
    then show ?thesis ..
  qed
  from close_trans [OF abs_rd_close [OF n] c] show "close (Suc k) \<bar>rd_fin a\<bar> X" by simp
qed

lemma rng_add: "0 \<le> lo \<Longrightarrow> rng lo h1 A \<Longrightarrow> rng lo h2 B \<Longrightarrow> 0 \<le> h1 \<Longrightarrow> 0 \<le> h2 \<Longrightarrow> rng lo (h1 + h2) (A + B)"
  by (auto simp: rng_def)

lemma rng_ok: "rng lo hi A \<Longrightarrow> 1 / 2 ^ 1020 \<le> lo \<Longrightarrow> hi \<le> 2 ^ 1020 \<Longrightarrow> ok A"
  unfolding rng_def ok_def by (elim disjE conjE) (simp, metis order_trans)

lemma safe_sq: "safe v \<Longrightarrow> rng (1 / 2 ^ 1010) (2 ^ 500) (v * v)"
proof (cases "v = 0")
  case True
  then show ?thesis by (simp add: rng_def)
next
  case False
  assume "safe v"
  with False have lo: "1 / 2 ^ 505 \<le> \<bar>v\<bar>" and hi: "\<bar>v\<bar> \<le> 2 ^ 250" by (simp_all add: safe_def)
  have "(1 / 2 ^ 505) * (1 / 2 ^ 505) \<le> \<bar>v\<bar> * \<bar>v\<bar>" by (rule mult_mono [OF lo lo]) simp_all
  then have 1: "1 / 2 ^ 1010 \<le> v * v" by (simp add: abs_mult_self_eq)
  have "\<bar>v\<bar> * \<bar>v\<bar> \<le> 2 ^ 250 * 2 ^ 250" by (rule mult_mono [OF hi hi]) simp_all
  then have 2: "v * v \<le> 2 ^ 500" by (simp add: abs_mult_self_eq)
  from 1 2 show ?thesis by (simp add: rng_def)
qed

lemma sq_round:
  assumes "safe v"
  shows "\<exists>s. fmul (Fin v) (Fin v) = Fin s \<and> close 1 s (v * v)"
proof -
  have okv: "ok (v * v)" by (rule rng_ok [OF safe_sq [OF assms]]) simp_all
  have c: "close 0 \<bar>v * v\<bar> (v * v)" by (simp add: close_refl)
  from round_step [OF c okv] have r: "rd (v * v) = Fin (rd_fin (v * v))"
    and cl: "close (Suc 0) \<bar>rd_fin (v * v)\<bar> (v * v)" by simp_all
  have "0 \<le> rd_fin (v * v)" by (rule rd_fin_nonneg) simp
  with cl have "close 1 (rd_fin (v * v)) (v * v)" by simp
  with r show ?thesis by simp
qed

lemma add_round:
  assumes a: "close k a A" and b: "close k b B" and okab: "ok (A + B)" and k: "k \<le> 19"
  shows "\<exists>s. fadd (Fin a) (Fin b) = Fin s \<and> close (Suc k) s (A + B)"
proof -
  from a b have nn: "0 \<le> a + b" by (simp add: close_def)
  from close_add [OF a b] nn have c: "close k \<bar>a + b\<bar> (A + B)" by simp
  from round_step [OF c okab k] have r: "rd (a + b) = Fin (rd_fin (a + b))"
    and cl: "close (Suc k) \<bar>rd_fin (a + b)\<bar> (A + B)" by simp_all
  from rd_fin_nonneg [OF nn] cl have "close (Suc k) (rd_fin (a + b)) (A + B)" by simp
  with r show ?thesis by simp
qed

lemma sqrt_round:
  assumes a: "close k a A" and oks: "ok (sqrt A)" and k: "k \<le> 19"
  shows "\<exists>m. fsqrt (Fin a) = Fin m \<and> 0 \<le> m \<and> close (Suc k) m (sqrt A)"
proof -
  from a have nn: "0 \<le> a" by (simp add: close_def)
  from close_sqrt [OF a] nn have c: "close k \<bar>sqrt a\<bar> (sqrt A)" by simp
  from round_step [OF c oks k] have r: "rd (sqrt a) = Fin (rd_fin (sqrt a))"
    and cl: "close (Suc k) \<bar>rd_fin (sqrt a)\<bar> (sqrt A)" by simp_all
  have p: "0 \<le> rd_fin (sqrt a)" by (rule rd_fin_nonneg) (simp add: nn)
  with cl have "close (Suc k) (rd_fin (sqrt a)) (sqrt A)" by simp
  with r nn p show ?thesis by simp
qed

lemma div_round:
  assumes m: "close k m M" and M: "0 < M" and okq: "ok (\<bar>v\<bar> / M)" and k: "k \<le> 19"
  shows "\<exists>f. fdiv (Fin v) (Fin m) = Fin f \<and> close (Suc k) \<bar>f\<bar> (\<bar>v\<bar> / M) \<and> 0 \<le> f * v"
proof -
  from m have "0 \<le> m" by (simp add: close_def)
  moreover from close_zero_iff [OF m] M have "m \<noteq> 0" by simp
  ultimately have mp: "0 < m" by simp
  have "close (0 + k) (\<bar>v\<bar> / m) (\<bar>v\<bar> / M)"
    by (rule close_div [OF close_refl m mp M]) simp
  then have c: "close k \<bar>v / m\<bar> (\<bar>v\<bar> / M)" using mp by (simp add: abs_divide)
  from round_step [OF c okq k] have r: "rd (v / m) = Fin (rd_fin (v / m))"
    and cl: "close (Suc k) \<bar>rd_fin (v / m)\<bar> (\<bar>v\<bar> / M)" by simp_all
  have "0 \<le> rd_fin (v / m) * (v / m)" by (rule rd_fin_sign)
  then have "0 \<le> (rd_fin (v / m) * (v / m)) * m"
    by (rule mult_nonneg_nonneg) (simp add: mp less_imp_le)
  moreover have "(rd_fin (v / m) * (v / m)) * m = rd_fin (v / m) * v" using mp by simp
  ultimately have sg: "0 \<le> rd_fin (v / m) * v" by simp
  from r cl sg mp show ?thesis by simp
qed

lemma sq_le_sum:
  fixes w x y z :: real
  shows "w * w \<le> x * x + y * y + z * z + w * w" and "x * x \<le> x * x + y * y + z * z + w * w"
    and "y * y \<le> x * x + y * y + z * z + w * w" and "z * z \<le> x * x + y * y + z * z + w * w"
  by (simp_all add: add_nonneg_nonneg)

lemma abs_le_sqrt: "v * v \<le> S \<Longrightarrow> \<bar>v\<bar> \<le> sqrt S"
  by (rule real_le_rsqrt) (simp add: power2_eq_square abs_mult_self_eq)

lemma quot_ok:
  assumes v: "safe v" and le: "\<bar>v\<bar> \<le> M" and M: "0 < M" and Mhi: "M \<le> 2 ^ 252"
  shows "ok (\<bar>v\<bar> / M)"
proof (cases "v = 0")
  case True
  then show ?thesis by (simp add: ok_def)
next
  case False
  with v have lo: "1 / 2 ^ 505 \<le> \<bar>v\<bar>" by (simp add: safe_def)
  have "(1 / 2 ^ 505) / 2 ^ 252 \<le> \<bar>v\<bar> / M"
    by (rule frac_le [OF _ lo M Mhi]) simp
  moreover have "(1::real) / 2 ^ 1020 \<le> (1 / 2 ^ 505) / 2 ^ 252" by simp
  ultimately have 1: "1 / 2 ^ 1020 \<le> \<bar>v\<bar> / M" by (rule order_trans [rotated])
  from le M have "\<bar>v\<bar> / M \<le> 1" by simp
  moreover have "(1::real) \<le> 2 ^ 1020" by simp
  ultimately have 2: "\<bar>v\<bar> / M \<le> 2 ^ 1020" by (rule order_trans)
  from 1 2 show ?thesis by (simp add: ok_def)
qed

lemma normalize_close:
  fixes w x y z :: real
  assumes sw: "safe w" and sx: "safe x" and sy: "safe y" and sz: "safe z"
    and nz: "x * x + y * y + z * z + w * w \<noteq> 0"
  shows "\<exists>fw fx fy fz.
      normalize \<lparr> qw = Fin w, qx = Fin x, qy = Fin y, qz = Fin z \<rparr>
        = \<lparr> qw = Fin fw, qx = Fin fx, qy = Fin fy, qz = Fin fz \<rparr>
      \<and> close 6 \<bar>fw\<bar> (\<bar>w\<bar> / sqrt (x * x + y * y + z * z + w * w)) \<and> 0 \<le> fw * w
      \<and> close 6 \<bar>fx\<bar> (\<bar>x\<bar> / sqrt (x * x + y * y + z * z + w * w)) \<and> 0 \<le> fx * x
      \<and> close 6 \<bar>fy\<bar> (\<bar>y\<bar> / sqrt (x * x + y * y + z * z + w * w)) \<and> 0 \<le> fy * y
      \<and> close 6 \<bar>fz\<bar> (\<bar>z\<bar> / sqrt (x * x + y * y + z * z + w * w)) \<and> 0 \<le> fz * z"
proof -
  let ?S = "x * x + y * y + z * z + w * w"
  let ?M = "sqrt ?S"
  let ?q = "\<lparr> qw = Fin w, qx = Fin x, qy = Fin y, qz = Fin z \<rparr>"
  from sq_round [OF sx] obtain tx where tx: "fmul (Fin x) (Fin x) = Fin tx" "close 1 tx (x * x)" by blast
  from sq_round [OF sy] obtain ty where ty: "fmul (Fin y) (Fin y) = Fin ty" "close 1 ty (y * y)" by blast
  from sq_round [OF sz] obtain tz where tz: "fmul (Fin z) (Fin z) = Fin tz" "close 1 tz (z * z)" by blast
  from sq_round [OF sw] obtain tw where tw: "fmul (Fin w) (Fin w) = Fin tw" "close 1 tw (w * w)" by blast
  have r1: "rng (1 / 2 ^ 1010) (2 ^ 500 + 2 ^ 500) (x * x + y * y)"
    by (rule rng_add [OF _ safe_sq [OF sx] safe_sq [OF sy]]) simp_all
  have r2: "rng (1 / 2 ^ 1010) (2 ^ 500 + 2 ^ 500 + 2 ^ 500) (x * x + y * y + z * z)"
    by (rule rng_add [OF _ r1 safe_sq [OF sz]]) simp_all
  have r3: "rng (1 / 2 ^ 1010) (2 ^ 500 + 2 ^ 500 + 2 ^ 500 + 2 ^ 500) ?S"
    by (rule rng_add [OF _ r2 safe_sq [OF sw]]) simp_all
  have ok1: "ok (x * x + y * y)" by (rule rng_ok [OF r1]) simp_all
  have ok2: "ok (x * x + y * y + z * z)" by (rule rng_ok [OF r2]) simp_all
  have ok3: "ok ?S" by (rule rng_ok [OF r3]) simp_all
  from add_round [OF tx(2) ty(2) ok1] obtain s1 where
    s1: "fadd (Fin tx) (Fin ty) = Fin s1" "close 2 s1 (x * x + y * y)"
    by (auto simp: numeral_2_eq_2)
  from add_round [OF s1(2) close_mono [OF tz(2)] ok2] obtain s2 where
    s2: "fadd (Fin s1) (Fin tz) = Fin s2" "close 3 s2 (x * x + y * y + z * z)"
    by (auto simp: numeral_3_eq_3)
  from add_round [OF s2(2) close_mono [OF tw(2)] ok3] obtain s3 where
    s3: "fadd (Fin s2) (Fin tw) = Fin s3" "close 4 s3 ?S"
    by (auto simp: eval_nat_numeral)
  from r3 nz have Slo: "1 / 2 ^ 1010 \<le> ?S" and Shi: "?S \<le> 2 ^ 500 + 2 ^ 500 + 2 ^ 500 + 2 ^ 500"
    by (simp_all add: rng_def)
  have Mlo: "1 / 2 ^ 505 \<le> ?M"
    by (rule real_le_rsqrt) (rule order_trans [OF _ Slo], simp add: power_divide)
  have Mhi: "?M \<le> 2 ^ 252"
    by (rule real_le_lsqrt) (simp, rule order_trans [OF Shi], simp)
  have Mpos: "0 < ?M" using Mlo by (rule less_le_trans [rotated]) simp
  have okM: "ok ?M"
  proof -
    have "(1::real) / 2 ^ 1020 \<le> 1 / 2 ^ 505" by simp
    then have "1 / 2 ^ 1020 \<le> ?M" using Mlo by (rule order_trans)
    moreover have "?M \<le> 2 ^ 1020" by (rule order_trans [OF Mhi]) simp
    ultimately show ?thesis by (simp add: ok_def)
  qed
  from sqrt_round [OF s3(2) okM] obtain m where
    m: "fsqrt (Fin s3) = Fin m" "0 \<le> m" "close 5 m ?M"
    by (auto simp: eval_nat_numeral)
  have mag: "magnitude ?q = Fin m"
    by (simp only: magnitude_def quat.simps tx ty tz tw s1 s2 s3 m)
  from close_zero_iff [OF m(3)] Mpos have mnz: "m \<noteq> 0" by simp
  have qw: "ok (\<bar>w\<bar> / ?M)" by (rule quot_ok [OF sw abs_le_sqrt [OF sq_le_sum(1)] Mpos Mhi])
  have qx: "ok (\<bar>x\<bar> / ?M)" by (rule quot_ok [OF sx abs_le_sqrt [OF sq_le_sum(2)] Mpos Mhi])
  have qy: "ok (\<bar>y\<bar> / ?M)" by (rule quot_ok [OF sy abs_le_sqrt [OF sq_le_sum(3)] Mpos Mhi])
  have qz: "ok (\<bar>z\<bar> / ?M)" by (rule quot_ok [OF sz abs_le_sqrt [OF sq_le_sum(4)] Mpos Mhi])
  from div_round [OF m(3) Mpos qw] obtain fw where
    fw: "fdiv (Fin w) (Fin m) = Fin fw" "close 6 \<bar>fw\<bar> (\<bar>w\<bar> / ?M)" "0 \<le> fw * w"
    by (auto simp: eval_nat_numeral)
  from div_round [OF m(3) Mpos qx] obtain fx where
    fx: "fdiv (Fin x) (Fin m) = Fin fx" "close 6 \<bar>fx\<bar> (\<bar>x\<bar> / ?M)" "0 \<le> fx * x"
    by (auto simp: eval_nat_numeral)
  from div_round [OF m(3) Mpos qy] obtain fy where
    fy: "fdiv (Fin y) (Fin m) = Fin fy" "close 6 \<bar>fy\<bar> (\<bar>y\<bar> / ?M)" "0 \<le> fy * y"
    by (auto simp: eval_nat_numeral)
  from div_round [OF m(3) Mpos qz] obtain fz where
    fz: "fdiv (Fin z) (Fin m) = Fin fz" "close 6 \<bar>fz\<bar> (\<bar>z\<bar> / ?M)" "0 \<le> fz * z"
    by (auto simp: eval_nat_numeral)
  have "normalize ?q = \<lparr> qw = fdiv (Fin w) (Fin m), qx = fdiv (Fin x) (Fin m),
      qy = fdiv (Fin y) (Fin m), qz = fdiv (Fin z) (Fin m) \<rparr>"
    using mnz by (simp add: normalize_eq mag del: fdiv.simps)
  then have "normalize ?q = \<lparr> qw = Fin fw, qx = Fin fx, qy = Fin fy, qz = Fin fz \<rparr>"
    by (simp only: fw(1) fx(1) fy(1) fz(1))
  with fw(2,3) fx(2,3) fy(2,3) fz(2,3) show ?thesis by blast
qed

lemma cc18: "cc ^ 18 * (cc ^ 18 - 1) \<le> 1 / 2 ^ 47"
  by (simp add: cc_def power_divide)

lemma same_sign_diff: "0 \<le> g * f \<Longrightarrow> \<bar>g - f\<bar> = \<bar>\<bar>g\<bar> - \<bar>f\<bar>\<bar>" for g f :: real
  by (cases "0 \<le> g"; cases "0 \<le> f") (auto simp: mult_le_0_iff zero_le_mult_iff abs_if)

lemma close_abs_diff:
  assumes c: "close 18 \<bar>g\<bar> \<bar>f\<bar>" and s: "0 \<le> g * f"
  shows "\<bar>g - f\<bar> \<le> \<bar>f\<bar> / 2 ^ 47"
proof -
  let ?c = "cc ^ 18"
  from c have a: "\<bar>g\<bar> \<le> \<bar>f\<bar> * ?c" and b: "\<bar>f\<bar> \<le> \<bar>g\<bar> * ?c" by (simp_all add: close_def)
  have c1: "1 \<le> ?c" by (rule cc_pow_ge1)
  have c0: "0 \<le> ?c - 1" using c1 by simp
  have e1: "\<bar>f\<bar> * (?c - 1) \<le> \<bar>f\<bar> * (?c * (?c - 1))"
  proof (rule mult_left_mono)
    have "1 * (?c - 1) \<le> ?c * (?c - 1)" by (rule mult_right_mono [OF c1 c0])
    then show "?c - 1 \<le> ?c * (?c - 1)" by simp
  qed simp
  have "\<bar>g\<bar> - \<bar>f\<bar> \<le> \<bar>f\<bar> * ?c - \<bar>f\<bar>" using a by simp
  also have "\<dots> = \<bar>f\<bar> * (?c - 1)" by (simp add: right_diff_distrib)
  finally have up: "\<bar>g\<bar> - \<bar>f\<bar> \<le> \<bar>f\<bar> * (?c * (?c - 1))" using e1 by (rule order_trans)
  have "\<bar>f\<bar> - \<bar>g\<bar> \<le> \<bar>g\<bar> * ?c - \<bar>g\<bar>" using b by simp
  also have "\<dots> = \<bar>g\<bar> * (?c - 1)" by (simp add: right_diff_distrib)
  also have "\<dots> \<le> (\<bar>f\<bar> * ?c) * (?c - 1)" by (rule mult_right_mono [OF a c0])
  finally have lo: "\<bar>f\<bar> - \<bar>g\<bar> \<le> \<bar>f\<bar> * (?c * (?c - 1))" by (simp add: mult.assoc)
  from up lo have "\<bar>\<bar>g\<bar> - \<bar>f\<bar>\<bar> \<le> \<bar>f\<bar> * (?c * (?c - 1))" by (simp add: abs_le_iff)
  also have "\<dots> \<le> \<bar>f\<bar> * (1 / 2 ^ 47)" by (rule mult_left_mono [OF cc18]) simp
  finally show ?thesis by (simp add: same_sign_diff [OF s])
qed

lemma normalize_near_fixed:
  fixes w x y z :: real
  assumes sw: "safe w" and sx: "safe x" and sy: "safe y" and sz: "safe z"
    and one: "close 12 (x * x + y * y + z * z + w * w) 1"
  shows "\<exists>gw gx gy gz.
      normalize \<lparr> qw = Fin w, qx = Fin x, qy = Fin y, qz = Fin z \<rparr>
        = \<lparr> qw = Fin gw, qx = Fin gx, qy = Fin gy, qz = Fin gz \<rparr>
      \<and> \<bar>gw - w\<bar> \<le> \<bar>w\<bar> / 2 ^ 47 \<and> \<bar>gx - x\<bar> \<le> \<bar>x\<bar> / 2 ^ 47
      \<and> \<bar>gy - y\<bar> \<le> \<bar>y\<bar> / 2 ^ 47 \<and> \<bar>gz - z\<bar> \<le> \<bar>z\<bar> / 2 ^ 47"
proof -
  let ?S = "x * x + y * y + z * z + w * w"
  let ?M = "sqrt ?S"
  from close_zero_iff [OF one] have nz: "?S \<noteq> 0" by simp
  from close_sqrt [OF one] have cM: "close 12 ?M 1" by simp
  from one have "0 \<le> ?S" by (simp only: close_def)
  from this nz [symmetric] have "0 < ?S" by (rule le_neq_trans)
  then have Mpos: "0 < ?M" by (rule real_sqrt_gt_zero)
  have q: "\<And>v::real. close 12 (\<bar>v\<bar> / ?M) \<bar>v\<bar>"
  proof -
    fix v :: real
    have "close (0 + 12) (\<bar>v\<bar> / ?M) (\<bar>v\<bar> / 1)"
      by (rule close_div [OF close_refl cM Mpos]) simp_all
    then show "close 12 (\<bar>v\<bar> / ?M) \<bar>v\<bar>" by simp
  qed
  from normalize_close [OF sw sx sy sz nz] obtain gw gx gy gz where
    n: "normalize \<lparr> qw = Fin w, qx = Fin x, qy = Fin y, qz = Fin z \<rparr>
          = \<lparr> qw = Fin gw, qx = Fin gx, qy = Fin gy, qz = Fin gz \<rparr>"
    and cw: "close 6 \<bar>gw\<bar> (\<bar>w\<bar> / ?M)" "0 \<le> gw * w"
    and cx: "close 6 \<bar>gx\<bar> (\<bar>x\<bar> / ?M)" "0 \<le> gx * x"
    and cy: "close 6 \<bar>gy\<bar> (\<bar>y\<bar> / ?M)" "0 \<le> gy * y"
    and cz: "close 6 \<bar>gz\<bar> (\<bar>z\<bar> / ?M)" "0 \<le> gz * z"
    by blast
  from close_trans [OF cw(1) q] have "close 18 \<bar>gw\<bar> \<bar>w\<bar>" by simp
  from close_abs_diff [OF this cw(2)] have dw: "\<bar>gw - w\<bar> \<le> \<bar>w\<bar> / 2 ^ 47" .
  from close_trans [OF cx(1) q] have "close 18 \<bar>gx\<bar> \<bar>x\<bar>" by simp
  from close_abs_diff [OF this cx(2)] have dx: "\<bar>gx - x\<bar> \<le> \<bar>x\<bar> / 2 ^ 47" .
  from close_trans [OF cy(1) q] have "close 18 \<bar>gy\<bar> \<bar>y\<bar>" by simp
  from close_abs_diff [OF this cy(2)] have dy: "\<bar>gy - y\<bar> \<le> \<bar>y\<bar> / 2 ^ 47" .
  from close_trans [OF cz(1) q] have "close 18 \<bar>gz\<bar> \<bar>z\<bar>" by simp
  from close_abs_diff [OF this cz(2)] have dz: "\<bar>gz - z\<bar> \<le> \<bar>z\<bar> / 2 ^ 47" .
  from n dw dx dy dz show ?thesis by blast
qed

lemma moderate_safe: "moderate v \<Longrightarrow> safe v"
proof -
  assume m: "moderate v"
  show ?thesis
  proof (cases "v = 0")
    case True
    then show ?thesis by (simp add: safe_def)
  next
    case False
    with m have lo: "1 / 2 ^ 250 \<le> \<bar>v\<bar>" and hi: "\<bar>v\<bar> \<le> 2 ^ 250" by (simp_all add: moderate_def)
    have "(1::real) / 2 ^ 505 \<le> 1 / 2 ^ 250" by simp
    then have "1 / 2 ^ 505 \<le> \<bar>v\<bar>" using lo by (rule order_trans)
    with hi show ?thesis by (simp add: safe_def)
  qed
qed

lemma sum_sqrt_hi:
  fixes w x y z :: real
  assumes "safe w" and "safe x" and "safe y" and "safe z"
  shows "sqrt (x * x + y * y + z * z + w * w) \<le> 2 ^ 252"
proof -
  have r1: "rng (1 / 2 ^ 1010) (2 ^ 500 + 2 ^ 500) (x * x + y * y)"
    by (rule rng_add [OF _ safe_sq safe_sq]) (simp_all add: assms)
  have r2: "rng (1 / 2 ^ 1010) (2 ^ 500 + 2 ^ 500 + 2 ^ 500) (x * x + y * y + z * z)"
    by (rule rng_add [OF _ r1 safe_sq]) (simp_all add: assms)
  have r3: "rng (1 / 2 ^ 1010) (2 ^ 500 + 2 ^ 500 + 2 ^ 500 + 2 ^ 500) (x * x + y * y + z * z + w * w)"
    by (rule rng_add [OF _ r2 safe_sq]) (simp_all add: assms)
  then have "x * x + y * y + z * z + w * w \<le> 2 ^ 500 + 2 ^ 500 + 2 ^ 500 + 2 ^ 500"
    unfolding rng_def by (elim disjE conjE) simp_all
  then show ?thesis by (intro real_le_lsqrt) (simp, erule order_trans, simp)
qed

lemma field_safe:
  assumes v: "moderate v" and le: "\<bar>v\<bar> \<le> M" and M: "0 < M" and Mhi: "M \<le> 2 ^ 252"
    and c: "close 6 \<bar>f\<bar> (\<bar>v\<bar> / M)"
  shows "safe f"
proof (cases "v = 0")
  case True
  with close_zero_iff [OF c] show ?thesis by (simp add: safe_def)
next
  case False
  with v have lo: "1 / 2 ^ 250 \<le> \<bar>v\<bar>" by (simp add: moderate_def)
  have q1: "(1 / 2 ^ 250) / 2 ^ 252 \<le> \<bar>v\<bar> / M" by (rule frac_le [OF _ lo M Mhi]) simp
  from le M have q2: "\<bar>v\<bar> / M \<le> 1" by simp
  from close_bounds [OF c] have b1: "\<bar>f\<bar> \<le> 2 * (\<bar>v\<bar> / M)" and b2: "\<bar>v\<bar> / M \<le> 2 * \<bar>f\<bar>" by simp_all
  from b1 q2 have "\<bar>f\<bar> \<le> 2" by linarith
  moreover have "(2::real) \<le> 2 ^ 250" by simp
  ultimately have hi: "\<bar>f\<bar> \<le> 2 ^ 250" by (rule order_trans)
  from q1 b2 have "(1 / 2 ^ 250) / 2 ^ 252 \<le> 2 * \<bar>f\<bar>" by (rule order_trans)
  moreover have "(1::real) / 2 ^ 505 * 2 \<le> (1 / 2 ^ 250) / 2 ^ 252" by simp
  ultimately have "1 / 2 ^ 505 * 2 \<le> 2 * \<bar>f\<bar>" by (rule order_trans [rotated])
  then have "1 / 2 ^ 505 \<le> \<bar>f\<bar>" by simp
  with hi show ?thesis by (simp add: safe_def)
qed

lemma close_square:
  assumes c: "close 6 \<bar>f\<bar> (\<bar>v\<bar> / M)"
  shows "close 12 (f * f) (v * v / (M * M))"
proof -
  from close_mult [OF c c] have "close 12 (\<bar>f\<bar> * \<bar>f\<bar>) ((\<bar>v\<bar> / M) * (\<bar>v\<bar> / M))" by simp
  then show ?thesis by (simp add: abs_mult_self_eq)
qed

lemma normalize_zero:
  "normalize \<lparr> qw = Fin 0, qx = Fin 0, qy = Fin 0, qz = Fin 0 \<rparr>
     = \<lparr> qw = Fin 1, qx = Fin 0, qy = Fin 0, qz = Fin 0 \<rparr>"
  by (simp add: normalize_def rd_zero Let_def)

lemma sum_squares_zero:
  fixes w x y z :: real
  assumes "x * x + y * y + z * z + w * w = 0"
  shows "w = 0 \<and> x = 0 \<and> y = 0 \<and> z = 0"
proof -
  have "0 \<le> x * x" "0 \<le> y * y" "0 \<le> z * z" "0 \<le> w * w" by simp_all
  with assms have "x * x = 0 \<and> y * y = 0 \<and> z * z = 0 \<and> w * w = 0" by linarith
  then show ?thesis by simp
qed

lemma normalize_twice:
  fixes w x y z :: real
  assumes mw: "moderate w" and mx: "moderate x" and my: "moderate y" and mz: "moderate z"
  shows "\<exists>fw fx fy fz gw gx gy gz.
      normalize \<lparr> qw = Fin w, qx = Fin x, qy = Fin y, qz = Fin z \<rparr>
        = \<lparr> qw = Fin fw, qx = Fin fx, qy = Fin fy, qz = Fin fz \<rparr>
      \<and> normalize \<lparr> qw = Fin fw, qx = Fin fx, qy = Fin fy, qz = Fin fz \<rparr>
        = \<lparr> qw = Fin gw, qx = Fin gx, qy = Fin gy, qz = Fin gz \<rparr>
      \<and> \<bar>gw - fw\<bar> \<le> \<bar>fw\<bar> / 2 ^ 47 \<and> \<bar>gx - fx\<bar> \<le> \<bar>fx\<bar> / 2 ^ 47
      \<and> \<bar>gy - fy\<bar> \<le> \<bar>fy\<bar> / 2 ^ 47 \<and> \<bar>gz - fz\<bar> \<le> \<bar>fz\<bar> / 2 ^ 47"
proof (cases "x * x + y * y + z * z + w * w = 0")
  case True
  from sum_squares_zero [OF True] have z: "w = 0" "x = 0" "y = 0" "z = 0" by simp_all
  have s1: "safe 1" by (simp add: safe_def)
  have s0: "safe 0" by (simp add: safe_def)
  have "close 12 (1::real) 1" by (rule close_mono [OF close_refl]) simp_all
  then have "close 12 (0 * 0 + 0 * 0 + 0 * 0 + 1 * 1) (1::real)" by simp
  from normalize_near_fixed [OF s1 s0 s0 s0 this] normalize_zero show ?thesis
    unfolding z by blast
next
  case False
  let ?S = "x * x + y * y + z * z + w * w"
  let ?M = "sqrt ?S"
  note sw = moderate_safe [OF mw] and sx = moderate_safe [OF mx]
    and sy = moderate_safe [OF my] and sz = moderate_safe [OF mz]
  have "0 \<le> ?S" by (simp add: add_nonneg_nonneg)
  from this False [symmetric] have Spos: "0 < ?S" by (rule le_neq_trans)
  then have Mpos: "0 < ?M" by (rule real_sqrt_gt_zero)
  have Mhi: "?M \<le> 2 ^ 252" by (rule sum_sqrt_hi [OF sw sx sy sz])
  have MM: "?M * ?M = ?S" using Spos by simp
  from normalize_close [OF sw sx sy sz False] obtain fw fx fy fz where
    n: "normalize \<lparr> qw = Fin w, qx = Fin x, qy = Fin y, qz = Fin z \<rparr>
          = \<lparr> qw = Fin fw, qx = Fin fx, qy = Fin fy, qz = Fin fz \<rparr>"
    and cw: "close 6 \<bar>fw\<bar> (\<bar>w\<bar> / ?M)" and cx: "close 6 \<bar>fx\<bar> (\<bar>x\<bar> / ?M)"
    and cy: "close 6 \<bar>fy\<bar> (\<bar>y\<bar> / ?M)" and cz: "close 6 \<bar>fz\<bar> (\<bar>z\<bar> / ?M)"
    by blast
  have fw: "safe fw" by (rule field_safe [OF mw abs_le_sqrt [OF sq_le_sum(1)] Mpos Mhi cw])
  have fx: "safe fx" by (rule field_safe [OF mx abs_le_sqrt [OF sq_le_sum(2)] Mpos Mhi cx])
  have fy: "safe fy" by (rule field_safe [OF my abs_le_sqrt [OF sq_le_sum(3)] Mpos Mhi cy])
  have fz: "safe fz" by (rule field_safe [OF mz abs_le_sqrt [OF sq_le_sum(4)] Mpos Mhi cz])
  have "close 12 (fx * fx + fy * fy + fz * fz + fw * fw)
          (x * x / (?M * ?M) + y * y / (?M * ?M) + z * z / (?M * ?M) + w * w / (?M * ?M))"
    by (intro close_add close_square cx cy cz cw)
  moreover have "x * x / (?M * ?M) + y * y / (?M * ?M) + z * z / (?M * ?M) + w * w / (?M * ?M) = 1"
    using Spos by (simp only: MM add_divide_distrib [symmetric]) simp
  ultimately have one: "close 12 (fx * fx + fy * fy + fz * fz + fw * fw) 1" by simp
  from normalize_near_fixed [OF fw fx fy fz one] n show ?thesis by blast
qed

lemma rd_underflow': "\<bar>x\<bar> < 1 / 2 ^ 1075 \<Longrightarrow> rd x = Fin 0"
proof -
  assume a: "\<bar>x\<bar> < 1 / 2 ^ 1075"
  have "(2::real) powr (- 1075) = 1 / 2 powr 1075" by (rule powr_minus_divide)
  then have "(2::real) powr (- 1075) = 1 / 2 ^ 1075" by simp
  with a have "\<bar>x\<bar> < 2 powr (- 1075)" by simp
  then show ?thesis by (rule rd_underflow)
qed

lemma normalize_overflow:
  "normalize \<lparr> qw = Fin (2 ^ 600), qx = Fin 0, qy = Fin 0, qz = Fin 0 \<rparr>
     = \<lparr> qw = Fin 0, qx = Fin 0, qy = Fin 0, qz = Fin 0 \<rparr>"
proof -
  have "rd (2 ^ 600 * 2 ^ 600) = PInf" by (rule rd_overflow) simp
  then show ?thesis by (simp add: normalize_def rd_zero Let_def)
qed

lemma normalize_underflow:
  "normalize \<lparr> qw = Fin 0, qx = Fin (1 / 2 ^ 600), qy = Fin 0, qz = Fin 0 \<rparr>
     = \<lparr> qw = Fin 1, qx = Fin 0, qy = Fin 0, qz = Fin 0 \<rparr>"
proof -
  have "rd (1 / 2 ^ 600 * (1 / 2 ^ 600)) = Fin 0" by (rule rd_underflow') simp
  then show ?thesis by (simp add: normalize_def rd_zero Let_def)
qed

lemma normalize_infinity:
  "normalize \<lparr> qw = PInf, qx = Fin 0, qy = Fin 0, qz = Fin 0 \<rparr>
     = \<lparr> qw = NaN, qx = Fin 0, qy = Fin 0, qz = Fin 0 \<rparr>"
  by (simp add: normalize_def rd_zero Let_def)

lemma normalize_accurate:
  fixes w x y z :: real
  assumes sw: "safe w" and sx: "safe x" and sy: "safe y" and sz: "safe z"
    and nz: "sqrt (norm2 \<lparr> qw = w, qx = x, qy = y, qz = z \<rparr>) \<noteq> 0"
  shows "\<exists>fw fx fy fz.
      normalize \<lparr> qw = Fin w, qx = Fin x, qy = Fin y, qz = Fin z \<rparr>
        = \<lparr> qw = Fin fw, qx = Fin fx, qy = Fin fy, qz = Fin fz \<rparr>
      \<and> \<bar>fw - w / sqrt (norm2 \<lparr> qw = w, qx = x, qy = y, qz = z \<rparr>)\<bar>
          \<le> \<bar>w / sqrt (norm2 \<lparr> qw = w, qx = x, qy = y, qz = z \<rparr>)\<bar> / 2 ^ 47
      \<and> \<bar>fx - x / sqrt (norm2 \<lparr> qw = w, qx = x, qy = y, qz = z \<rparr>)\<bar>
          \<le> \<bar>x / sqrt (norm2 \<lparr> qw = w, qx = x, qy = y, qz = z \<rparr>)\<bar> / 2 ^ 47
      \<and> \<bar>fy - y / sqrt (norm2 \<lparr> qw = w, qx = x, qy = y, qz = z \<rparr>)\<bar>
          \<le> \<bar>y / sqrt (norm2 \<lparr> qw = w, qx = x, qy = y, qz = z \<rparr>)\<bar> / 2 ^ 47
      \<and> \<bar>fz - z / sqrt (norm2 \<lparr> qw = w, qx = x, qy = y, qz = z \<rparr>)\<bar>
          \<le> \<bar>z / sqrt (norm2 \<lparr> qw = w, qx = x, qy = y, qz = z \<rparr>)\<bar> / 2 ^ 47"
proof -
  let ?S = "x * x + y * y + z * z + w * w"
  let ?M = "sqrt ?S"
  have e: "norm2 \<lparr> qw = w, qx = x, qy = y, qz = z \<rparr> = ?S" by (simp add: norm2_def)
  from nz [unfolded e] have Mnz: "?M \<noteq> 0" .
  have Snz: "?S \<noteq> 0"
  proof
    assume "?S = 0"
    then have "?M = 0" by (simp only: real_sqrt_zero)
    with Mnz show False ..
  qed
  have "0 \<le> ?M" by (simp add: add_nonneg_nonneg)
  with Mnz have Mpos: "0 < ?M" by linarith
  from normalize_close [OF sw sx sy sz Snz] obtain fw fx fy fz where
    n: "normalize \<lparr> qw = Fin w, qx = Fin x, qy = Fin y, qz = Fin z \<rparr>
          = \<lparr> qw = Fin fw, qx = Fin fx, qy = Fin fy, qz = Fin fz \<rparr>"
    and cw: "close 6 \<bar>fw\<bar> (\<bar>w\<bar> / ?M)" "0 \<le> fw * w"
    and cx: "close 6 \<bar>fx\<bar> (\<bar>x\<bar> / ?M)" "0 \<le> fx * x"
    and cy: "close 6 \<bar>fy\<bar> (\<bar>y\<bar> / ?M)" "0 \<le> fy * y"
    and cz: "close 6 \<bar>fz\<bar> (\<bar>z\<bar> / ?M)" "0 \<le> fz * z"
    by (elim exE conjE) (rule that)
  have d: "\<bar>f - v / ?M\<bar> \<le> \<bar>v / ?M\<bar> / 2 ^ 47"
    if c: "close 6 \<bar>f\<bar> (\<bar>v\<bar> / ?M)" and s: "0 \<le> f * v" for f v
  proof (rule close_abs_diff)
    have a: "\<bar>v / ?M\<bar> = \<bar>v\<bar> / ?M" using Mpos by (simp add: abs_divide)
    from c have "close 18 \<bar>f\<bar> (\<bar>v\<bar> / ?M)" by (rule close_mono) simp
    then show "close 18 \<bar>f\<bar> \<bar>v / ?M\<bar>" by (simp only: a)
    have "0 \<le> (f * v) / ?M" using s Mpos by (intro divide_nonneg_pos)
    then show "0 \<le> f * (v / ?M)" by simp
  qed
  from n d [OF cw] d [OF cx] d [OF cy] d [OF cz] show ?thesis by (simp only: e) blast
qed

section \<open>Normalization: claims\<close>

text \<open>
  Claim C3, as stated: \<open>normalize(q)\<close> divides each field by the magnitude
  \<open>sqrt(w\<^sup>2 + x\<^sup>2 + y\<^sup>2 + z\<^sup>2)\<close> unless that magnitude is exactly zero, and never produces
  \<^verbatim>\<open>NaN\<close> or an infinity. That fails on doubles. For \<open>(Infinity, 0, 0, 0)\<close> the computed
  magnitude is \<^verbatim>\<open>Infinity\<close> and the field \<open>w\<close> of the result is \<^verbatim>\<open>NaN\<close>. For
  \<open>(2\<^sup>6\<^sup>0\<^sup>0, 0, 0, 0)\<close>, of magnitude \<open>2\<^sup>6\<^sup>0\<^sup>0\<close>, the square overflows, the computed magnitude
  is \<^verbatim>\<open>Infinity\<close> and the result is \<open>(0, 0, 0, 0)\<close>, not \<open>(1, 0, 0, 0)\<close>. For
  \<open>(0, 2\<^sup>-\<^sup>6\<^sup>0\<^sup>0, 0, 0)\<close>, of magnitude \<open>2\<^sup>-\<^sup>6\<^sup>0\<^sup>0\<close> and not zero, the square underflows, the
  computed magnitude is zero and the result is the identity, not \<open>(0, 1, 0, 0)\<close>.
\<close>

theorem normalize_nonfinite_counterexample:
  "normalize \<lparr> qw = PInf, qx = Fin 0, qy = Fin 0, qz = Fin 0 \<rparr>
     = \<lparr> qw = NaN, qx = Fin 0, qy = Fin 0, qz = Fin 0 \<rparr>
   \<and> normalize \<lparr> qw = Fin (2 ^ 600), qx = Fin 0, qy = Fin 0, qz = Fin 0 \<rparr>
     = \<lparr> qw = Fin 0, qx = Fin 0, qy = Fin 0, qz = Fin 0 \<rparr>
   \<and> normalize \<lparr> qw = Fin 0, qx = Fin (1 / 2 ^ 600), qy = Fin 0, qz = Fin 0 \<rparr>
     = \<lparr> qw = Fin 1, qx = Fin 0, qy = Fin 0, qz = Fin 0 \<rparr>"
  using normalize_infinity normalize_overflow normalize_underflow by (intro conjI)

text \<open>
  Claim C3, amended. \<open>normalize(q)\<close> never raises. With \<open>mag\<close> the magnitude computed in
  double arithmetic, it returns the identity \<open>(1, 0, 0, 0)\<close> when \<open>mag\<close> is zero and each
  field divided by \<open>mag\<close>, in double arithmetic, otherwise; \<open>normalize(0, 0, 0, 0)\<close> is the
  identity. When the four fields are finite, so are the four fields of the result: neither
  \<^verbatim>\<open>NaN\<close> nor an infinity. When moreover each field is zero or of a magnitude between
  \<open>2\<^sup>-\<^sup>5\<^sup>0\<^sup>5\<close> and \<open>2\<^sup>2\<^sup>5\<^sup>0\<close>, and not all are zero, each field of the result is the field
  divided by the exact magnitude \<open>sqrt(w\<^sup>2 + x\<^sup>2 + y\<^sup>2 + z\<^sup>2)\<close> up to a relative error of
  \<open>2\<^sup>-\<^sup>4\<^sup>7\<close>.
\<close>

theorem normalize_divides_or_identity:
  fixes w x y z :: real
  shows "(\<exists>fw fx fy fz.
        normalize \<lparr> qw = Fin w, qx = Fin x, qy = Fin y, qz = Fin z \<rparr>
          = \<lparr> qw = Fin fw, qx = Fin fx, qy = Fin fy, qz = Fin fz \<rparr>
      \<and> (safe w \<and> safe x \<and> safe y \<and> safe z
           \<and> sqrt (norm2 \<lparr> qw = w, qx = x, qy = y, qz = z \<rparr>) \<noteq> 0 \<longrightarrow>
           \<bar>fw - w / sqrt (norm2 \<lparr> qw = w, qx = x, qy = y, qz = z \<rparr>)\<bar>
               \<le> \<bar>w / sqrt (norm2 \<lparr> qw = w, qx = x, qy = y, qz = z \<rparr>)\<bar> / 2 ^ 47
         \<and> \<bar>fx - x / sqrt (norm2 \<lparr> qw = w, qx = x, qy = y, qz = z \<rparr>)\<bar>
               \<le> \<bar>x / sqrt (norm2 \<lparr> qw = w, qx = x, qy = y, qz = z \<rparr>)\<bar> / 2 ^ 47
         \<and> \<bar>fy - y / sqrt (norm2 \<lparr> qw = w, qx = x, qy = y, qz = z \<rparr>)\<bar>
               \<le> \<bar>y / sqrt (norm2 \<lparr> qw = w, qx = x, qy = y, qz = z \<rparr>)\<bar> / 2 ^ 47
         \<and> \<bar>fz - z / sqrt (norm2 \<lparr> qw = w, qx = x, qy = y, qz = z \<rparr>)\<bar>
               \<le> \<bar>z / sqrt (norm2 \<lparr> qw = w, qx = x, qy = y, qz = z \<rparr>)\<bar> / 2 ^ 47))
    \<and> normalize q =
        (if magnitude q = Fin 0 then \<lparr> qw = Fin 1, qx = Fin 0, qy = Fin 0, qz = Fin 0 \<rparr>
         else \<lparr> qw = fdiv (qw q) (magnitude q), qx = fdiv (qx q) (magnitude q),
                qy = fdiv (qy q) (magnitude q), qz = fdiv (qz q) (magnitude q) \<rparr>)
    \<and> normalize \<lparr> qw = Fin 0, qx = Fin 0, qy = Fin 0, qz = Fin 0 \<rparr>
        = \<lparr> qw = Fin 1, qx = Fin 0, qy = Fin 0, qz = Fin 0 \<rparr>"
proof (intro conjI)
  let ?M = "sqrt (norm2 \<lparr> qw = w, qx = x, qy = y, qz = z \<rparr>)"
  show "\<exists>fw fx fy fz.
        normalize \<lparr> qw = Fin w, qx = Fin x, qy = Fin y, qz = Fin z \<rparr>
          = \<lparr> qw = Fin fw, qx = Fin fx, qy = Fin fy, qz = Fin fz \<rparr>
      \<and> (safe w \<and> safe x \<and> safe y \<and> safe z \<and> ?M \<noteq> 0 \<longrightarrow>
           \<bar>fw - w / ?M\<bar> \<le> \<bar>w / ?M\<bar> / 2 ^ 47 \<and> \<bar>fx - x / ?M\<bar> \<le> \<bar>x / ?M\<bar> / 2 ^ 47
         \<and> \<bar>fy - y / ?M\<bar> \<le> \<bar>y / ?M\<bar> / 2 ^ 47 \<and> \<bar>fz - z / ?M\<bar> \<le> \<bar>z / ?M\<bar> / 2 ^ 47)"
  proof (cases "safe w \<and> safe x \<and> safe y \<and> safe z \<and> ?M \<noteq> 0")
    case True
    then have s: "safe w" "safe x" "safe y" "safe z" and nz: "?M \<noteq> 0" by simp_all
    from normalize_accurate [OF s nz] show ?thesis by blast
  next
    case False
    with normalize_finite [of w x y z] show ?thesis by blast
  qed
  show "normalize q =
        (if magnitude q = Fin 0 then \<lparr> qw = Fin 1, qx = Fin 0, qy = Fin 0, qz = Fin 0 \<rparr>
         else \<lparr> qw = fdiv (qw q) (magnitude q), qx = fdiv (qx q) (magnitude q),
                qy = fdiv (qy q) (magnitude q), qz = fdiv (qz q) (magnitude q) \<rparr>)"
    by (simp add: normalize_eq)
  show "normalize \<lparr> qw = Fin 0, qx = Fin 0, qy = Fin 0, qz = Fin 0 \<rparr>
        = \<lparr> qw = Fin 1, qx = Fin 0, qy = Fin 0, qz = Fin 0 \<rparr>"
    by (rule normalize_zero)
qed

theorem normalize_divides_or_identity_witness:
  "safe 3 \<and> safe 0 \<and> safe 4 \<and> sqrt (norm2 \<lparr> qw = 3, qx = 0, qy = 0, qz = 4 \<rparr>) = 5
   \<and> (\<exists>fw fx fy fz.
        normalize \<lparr> qw = Fin 3, qx = Fin 0, qy = Fin 0, qz = Fin 4 \<rparr>
          = \<lparr> qw = Fin fw, qx = Fin fx, qy = Fin fy, qz = Fin fz \<rparr>
      \<and> \<bar>fw - 3 / 5\<bar> \<le> (3 / 5) / 2 ^ 47 \<and> fx = 0 \<and> fy = 0
      \<and> \<bar>fz - 4 / 5\<bar> \<le> (4 / 5) / 2 ^ 47)"
proof -
  have s3: "safe 3" and s0: "safe 0" and s4: "safe 4" by (simp_all add: safe_def)
  have "sqrt (norm2 \<lparr> qw = 3, qx = 0, qy = 0, qz = 4 \<rparr>) = sqrt (5 * 5)"
    by (simp add: norm2_def)
  then have m: "sqrt (norm2 \<lparr> qw = 3, qx = 0, qy = 0, qz = 4 \<rparr>) = 5"
    by (simp only: real_sqrt_mult_self) simp
  have "\<exists>fw fx fy fz.
        normalize \<lparr> qw = Fin 3, qx = Fin 0, qy = Fin 0, qz = Fin 4 \<rparr>
          = \<lparr> qw = Fin fw, qx = Fin fx, qy = Fin fy, qz = Fin fz \<rparr>
      \<and> (safe 3 \<and> safe 0 \<and> safe 0 \<and> safe 4
           \<and> sqrt (norm2 \<lparr> qw = 3, qx = 0, qy = 0, qz = 4 \<rparr>) \<noteq> 0 \<longrightarrow>
           \<bar>fw - 3 / sqrt (norm2 \<lparr> qw = 3, qx = 0, qy = 0, qz = 4 \<rparr>)\<bar>
               \<le> \<bar>3 / sqrt (norm2 \<lparr> qw = 3, qx = 0, qy = 0, qz = 4 \<rparr>)\<bar> / 2 ^ 47
         \<and> \<bar>fx - 0 / sqrt (norm2 \<lparr> qw = 3, qx = 0, qy = 0, qz = 4 \<rparr>)\<bar>
               \<le> \<bar>0 / sqrt (norm2 \<lparr> qw = 3, qx = 0, qy = 0, qz = 4 \<rparr>)\<bar> / 2 ^ 47
         \<and> \<bar>fy - 0 / sqrt (norm2 \<lparr> qw = 3, qx = 0, qy = 0, qz = 4 \<rparr>)\<bar>
               \<le> \<bar>0 / sqrt (norm2 \<lparr> qw = 3, qx = 0, qy = 0, qz = 4 \<rparr>)\<bar> / 2 ^ 47
         \<and> \<bar>fz - 4 / sqrt (norm2 \<lparr> qw = 3, qx = 0, qy = 0, qz = 4 \<rparr>)\<bar>
               \<le> \<bar>4 / sqrt (norm2 \<lparr> qw = 3, qx = 0, qy = 0, qz = 4 \<rparr>)\<bar> / 2 ^ 47)"
    by (rule conjunct1 [OF normalize_divides_or_identity [of 3 0 0 4]])
  then obtain fw fx fy fz where
    n: "normalize \<lparr> qw = Fin 3, qx = Fin 0, qy = Fin 0, qz = Fin 4 \<rparr>
          = \<lparr> qw = Fin fw, qx = Fin fx, qy = Fin fy, qz = Fin fz \<rparr>"
    and i: "safe 3 \<and> safe 0 \<and> safe 0 \<and> safe 4
           \<and> sqrt (norm2 \<lparr> qw = 3, qx = 0, qy = 0, qz = 4 \<rparr>) \<noteq> 0 \<longrightarrow>
           \<bar>fw - 3 / sqrt (norm2 \<lparr> qw = 3, qx = 0, qy = 0, qz = 4 \<rparr>)\<bar>
               \<le> \<bar>3 / sqrt (norm2 \<lparr> qw = 3, qx = 0, qy = 0, qz = 4 \<rparr>)\<bar> / 2 ^ 47
         \<and> \<bar>fx - 0 / sqrt (norm2 \<lparr> qw = 3, qx = 0, qy = 0, qz = 4 \<rparr>)\<bar>
               \<le> \<bar>0 / sqrt (norm2 \<lparr> qw = 3, qx = 0, qy = 0, qz = 4 \<rparr>)\<bar> / 2 ^ 47
         \<and> \<bar>fy - 0 / sqrt (norm2 \<lparr> qw = 3, qx = 0, qy = 0, qz = 4 \<rparr>)\<bar>
               \<le> \<bar>0 / sqrt (norm2 \<lparr> qw = 3, qx = 0, qy = 0, qz = 4 \<rparr>)\<bar> / 2 ^ 47
         \<and> \<bar>fz - 4 / sqrt (norm2 \<lparr> qw = 3, qx = 0, qy = 0, qz = 4 \<rparr>)\<bar>
               \<le> \<bar>4 / sqrt (norm2 \<lparr> qw = 3, qx = 0, qy = 0, qz = 4 \<rparr>)\<bar> / 2 ^ 47"
    by (elim exE conjE) (rule that, assumption+)
  from i s3 s0 s4 have
    "\<bar>fw - 3 / 5\<bar> \<le> (3 / 5) / 2 ^ 47 \<and> fx = 0 \<and> fy = 0 \<and> \<bar>fz - 4 / 5\<bar> \<le> (4 / 5) / 2 ^ 47"
    by (simp add: m)
  with n have "\<exists>fw fx fy fz.
        normalize \<lparr> qw = Fin 3, qx = Fin 0, qy = Fin 0, qz = Fin 4 \<rparr>
          = \<lparr> qw = Fin fw, qx = Fin fx, qy = Fin fy, qz = Fin fz \<rparr>
      \<and> \<bar>fw - 3 / 5\<bar> \<le> (3 / 5) / 2 ^ 47 \<and> fx = 0 \<and> fy = 0
      \<and> \<bar>fz - 4 / 5\<bar> \<le> (4 / 5) / 2 ^ 47"
    by blast
  with s3 s0 s4 m show ?thesis by blast
qed

text \<open>
  Claim C9, as stated: \<open>normalize(normalize(q))\<close> equals \<open>normalize(q)\<close> field by field, for
  every quaternion \<open>q\<close>. That fails on doubles: for \<open>q = (2\<^sup>6\<^sup>0\<^sup>0, 0, 0, 0)\<close> the square
  overflows and \<open>normalize(q)\<close> is \<open>(0, 0, 0, 0)\<close>, whose normalization is the identity
  \<open>(1, 0, 0, 0)\<close>.
\<close>

theorem normalize_idempotent_counterexample:
  "normalize \<lparr> qw = Fin (2 ^ 600), qx = Fin 0, qy = Fin 0, qz = Fin 0 \<rparr>
     = \<lparr> qw = Fin 0, qx = Fin 0, qy = Fin 0, qz = Fin 0 \<rparr>
   \<and> normalize (normalize \<lparr> qw = Fin (2 ^ 600), qx = Fin 0, qy = Fin 0, qz = Fin 0 \<rparr>)
     = \<lparr> qw = Fin 1, qx = Fin 0, qy = Fin 0, qz = Fin 0 \<rparr>
   \<and> normalize (normalize \<lparr> qw = Fin (2 ^ 600), qx = Fin 0, qy = Fin 0, qz = Fin 0 \<rparr>)
     \<noteq> normalize \<lparr> qw = Fin (2 ^ 600), qx = Fin 0, qy = Fin 0, qz = Fin 0 \<rparr>"
proof -
  let ?q = "\<lparr> qw = Fin (2 ^ 600), qx = Fin 0, qy = Fin 0, qz = Fin 0 \<rparr>"
  have a: "normalize ?q = \<lparr> qw = Fin 0, qx = Fin 0, qy = Fin 0, qz = Fin 0 \<rparr>"
    by (rule normalize_overflow)
  have b: "normalize (normalize ?q) = \<lparr> qw = Fin 1, qx = Fin 0, qy = Fin 0, qz = Fin 0 \<rparr>"
    by (simp only: a normalize_zero)
  have c: "normalize (normalize ?q) \<noteq> normalize ?q"
    by (simp only: a normalize_zero) simp
  from a b c show ?thesis by (intro conjI)
qed

text \<open>
  Claim C9, amended. For every quaternion \<open>q\<close> whose fields are each zero or of a magnitude
  between \<open>2\<^sup>-\<^sup>2\<^sup>5\<^sup>0\<close> and \<open>2\<^sup>2\<^sup>5\<^sup>0\<close>, \<open>normalize(q)\<close> and \<open>normalize(normalize(q))\<close> have
  finite fields, and \<open>normalize(normalize(q))\<close> equals \<open>normalize(q)\<close> up to rounding: each
  field of the one differs from the field of the other by at most \<open>2\<^sup>-\<^sup>4\<^sup>7\<close> times its
  magnitude.
\<close>

theorem normalize_twice_close:
  fixes w x y z :: real
  assumes mw: "moderate w" and mx: "moderate x" and my: "moderate y" and mz: "moderate z"
  shows "\<exists>fw fx fy fz gw gx gy gz.
      normalize \<lparr> qw = Fin w, qx = Fin x, qy = Fin y, qz = Fin z \<rparr>
        = \<lparr> qw = Fin fw, qx = Fin fx, qy = Fin fy, qz = Fin fz \<rparr>
      \<and> normalize (normalize \<lparr> qw = Fin w, qx = Fin x, qy = Fin y, qz = Fin z \<rparr>)
        = \<lparr> qw = Fin gw, qx = Fin gx, qy = Fin gy, qz = Fin gz \<rparr>
      \<and> \<bar>gw - fw\<bar> \<le> \<bar>fw\<bar> / 2 ^ 47 \<and> \<bar>gx - fx\<bar> \<le> \<bar>fx\<bar> / 2 ^ 47
      \<and> \<bar>gy - fy\<bar> \<le> \<bar>fy\<bar> / 2 ^ 47 \<and> \<bar>gz - fz\<bar> \<le> \<bar>fz\<bar> / 2 ^ 47"
proof -
  from normalize_twice [OF assms] obtain fw fx fy fz gw gx gy gz where
    f: "normalize \<lparr> qw = Fin w, qx = Fin x, qy = Fin y, qz = Fin z \<rparr>
        = \<lparr> qw = Fin fw, qx = Fin fx, qy = Fin fy, qz = Fin fz \<rparr>"
    and g: "normalize \<lparr> qw = Fin fw, qx = Fin fx, qy = Fin fy, qz = Fin fz \<rparr>
        = \<lparr> qw = Fin gw, qx = Fin gx, qy = Fin gy, qz = Fin gz \<rparr>"
    and d: "\<bar>gw - fw\<bar> \<le> \<bar>fw\<bar> / 2 ^ 47" "\<bar>gx - fx\<bar> \<le> \<bar>fx\<bar> / 2 ^ 47"
           "\<bar>gy - fy\<bar> \<le> \<bar>fy\<bar> / 2 ^ 47" "\<bar>gz - fz\<bar> \<le> \<bar>fz\<bar> / 2 ^ 47"
    by (elim exE conjE) (rule that)
  from g have "normalize (normalize \<lparr> qw = Fin w, qx = Fin x, qy = Fin y, qz = Fin z \<rparr>)
        = \<lparr> qw = Fin gw, qx = Fin gx, qy = Fin gy, qz = Fin gz \<rparr>"
    by (simp only: f)
  with f d show ?thesis by blast
qed

theorem normalize_twice_close_witness:
  "moderate 3 \<and> moderate 0 \<and> moderate 4
   \<and> (\<exists>fw fx fy fz gw gx gy gz.
      normalize \<lparr> qw = Fin 3, qx = Fin 0, qy = Fin 0, qz = Fin 4 \<rparr>
        = \<lparr> qw = Fin fw, qx = Fin fx, qy = Fin fy, qz = Fin fz \<rparr>
      \<and> normalize (normalize \<lparr> qw = Fin 3, qx = Fin 0, qy = Fin 0, qz = Fin 4 \<rparr>)
        = \<lparr> qw = Fin gw, qx = Fin gx, qy = Fin gy, qz = Fin gz \<rparr>
      \<and> \<bar>gw - fw\<bar> \<le> \<bar>fw\<bar> / 2 ^ 47 \<and> \<bar>gx - fx\<bar> \<le> \<bar>fx\<bar> / 2 ^ 47
      \<and> \<bar>gy - fy\<bar> \<le> \<bar>fy\<bar> / 2 ^ 47 \<and> \<bar>gz - fz\<bar> \<le> \<bar>fz\<bar> / 2 ^ 47)"
proof -
  have m3: "moderate 3" and m0: "moderate 0" and m4: "moderate 4"
    by (simp_all add: moderate_def)
  from normalize_twice_close [OF m3 m0 m0 m4] m3 m0 m4 show ?thesis by (intro conjI)
qed

section \<open>Spherical interpolation: claim\<close>

text \<open>
  Claim C2, as stated: for unit quaternions \<open>a\<close> and \<open>b\<close> that are neither equal nor
  antipodal, \<open>slerp(a, b, 0)\<close> is \<open>a\<close> and \<open>slerp(a, b, 1)\<close> is \<open>b\<close>. That fails for
  quaternions that are close: \<open>a = (1, 0, 0, 0)\<close> and
  \<open>b = (2002000/2002001, 2001/2002001, 0, 0)\<close> are unit, different and not antipodal, the
  sine of their half angle is \<open>2001/2002001 < 0.001\<close>, and \<open>slerp\<close> returns their average
  for every \<open>t\<close>: its \<open>x\<close> field is about 0.0005 at \<open>t = 0\<close>, where \<open>a\<close> has 0, and at
  \<open>t = 1\<close>, where \<open>b\<close> has about 0.001.
\<close>

theorem slerp_near_counterexample:
  "unit_quat (Quaternion4 1 0 0 0)
   \<and> unit_quat (Quaternion4 (2002000 / 2002001) (2001 / 2002001) 0 0)
   \<and> Quaternion4 1 0 0 0 \<noteq> Quaternion4 (2002000 / 2002001) (2001 / 2002001) 0 0
   \<and> Quaternion4 1 0 0 0 \<noteq> Quaternion4 (- (2002000 / 2002001)) (- (2001 / 2002001)) 0 0
   \<and> slerp (Quaternion4 1 0 0 0) (Quaternion4 (2002000 / 2002001) (2001 / 2002001) 0 0) 0
       = Some (Quaternion4 (4004001 / 4004002) (2001 / 4004002) 0 0)
   \<and> slerp (Quaternion4 1 0 0 0) (Quaternion4 (2002000 / 2002001) (2001 / 2002001) 0 0) 1
       = Some (Quaternion4 (4004001 / 4004002) (2001 / 4004002) 0 0)
   \<and> slerp (Quaternion4 1 0 0 0) (Quaternion4 (2002000 / 2002001) (2001 / 2002001) 0 0) 0
       \<noteq> Some (Quaternion4 1 0 0 0)
   \<and> slerp (Quaternion4 1 0 0 0) (Quaternion4 (2002000 / 2002001) (2001 / 2002001) 0 0) 1
       \<noteq> Some (Quaternion4 (2002000 / 2002001) (2001 / 2002001) 0 0)"
proof -
  let ?a = "Quaternion4 1 0 0 0"
  let ?b = "Quaternion4 (2002000 / 2002001) (2001 / 2002001) 0 0"
  have d: "dot ?a ?b = 2002000 / 2002001" by (simp add: dot_def Quaternion4_def)
  have lt: "\<bar>dot ?a ?b\<bar> < 1" by (simp add: d)
  have "sqrt (1 - dot ?a ?b * dot ?a ?b) = 2001 / 2002001"
    by (simp only: d sqrt_near_pair)
  then have near: "sqrt (1 - dot ?a ?b * dot ?a ?b) < 1 / 1000"
    by simp
  have s: "\<And>t. slerp ?a ?b t = Some (Quaternion4 (4004001 / 4004002) (2001 / 4004002) 0 0)"
    by (simp only: slerp_unfold [OF lt] near if_True) (simp add: Quaternion4_def)
  show ?thesis
    by (simp only: s) (simp add: unit_quat_def Quaternion4_def)
qed

text \<open>
  Claim C2, amended. For unit quaternions \<open>a\<close> and \<open>b\<close> whose half angle has a sine of at
  least 0.001, that is \<open>sqrt(1 - (a \<bullet> b)\<^sup>2) \<ge> 0.001\<close> (which leaves out equal and
  antipodal pairs, and the pairs close to them), \<open>slerp(a, b, 0)\<close> is \<open>a\<close> and
  \<open>slerp(a, b, 1)\<close> is \<open>b\<close> within floating-point tolerance: in exact arithmetic the results
  are \<open>a\<close> and \<open>b\<close> themselves.
\<close>

theorem slerp_endpoints:
  assumes "unit_quat a" and "unit_quat b"
    and far: "1 / 1000 \<le> sqrt (1 - dot a b * dot a b)"
  shows "slerp a b 0 = Some a \<and> slerp a b 1 = Some b"
proof -
  let ?c = "dot a b"
  let ?s = "sqrt (1 - ?c * ?c)"
  from far have spos: "0 < ?s" by linarith
  then have "0 < 1 - ?c * ?c" by simp
  then have "?c\<^sup>2 < 1" by (simp add: power2_eq_square)
  then have lt: "\<bar>?c\<bar> < 1" using abs_square_less_1 by blast
  then have "- 1 \<le> ?c" "?c \<le> 1" by auto
  then have sn: "sin (arccos ?c) = ?s" by (simp add: sin_arccos power2_eq_square)
  from far have nf: "\<not> ?s < 1 / 1000" by simp
  from spos sn have rA0: "sin ((1 - 0) * arccos ?c) / ?s = 1"
    and rB1: "sin (1 * arccos ?c) / ?s = 1" by simp_all
  have rB0: "sin (0 * arccos ?c) / ?s = 0" and rA1: "sin ((1 - 1) * arccos ?c) / ?s = 0"
    by simp_all
  have "slerp a b 0 = Some a"
    by (simp only: slerp_unfold [OF lt] nf if_False rA0 rB0) (simp add: Quaternion4_def)
  moreover have "slerp a b 1 = Some b"
    by (simp only: slerp_unfold [OF lt] nf if_False rA1 rB1) (simp add: Quaternion4_def)
  ultimately show ?thesis by simp
qed

theorem slerp_endpoints_witness:
  "unit_quat (Quaternion4 1 0 0 0) \<and> unit_quat (Quaternion4 0 1 0 0)
   \<and> 1 / 1000 \<le> sqrt (1 - dot (Quaternion4 1 0 0 0) (Quaternion4 0 1 0 0)
                            * dot (Quaternion4 1 0 0 0) (Quaternion4 0 1 0 0))
   \<and> slerp (Quaternion4 1 0 0 0) (Quaternion4 0 1 0 0) 0 = Some (Quaternion4 1 0 0 0)
   \<and> slerp (Quaternion4 1 0 0 0) (Quaternion4 0 1 0 0) 1 = Some (Quaternion4 0 1 0 0)"
proof -
  have u: "unit_quat (Quaternion4 1 0 0 0)" and v: "unit_quat (Quaternion4 0 1 0 0)"
    by (simp_all add: unit_quat_def Quaternion4_def)
  have d: "dot (Quaternion4 1 0 0 0) (Quaternion4 0 1 0 0) = 0"
    by (simp add: dot_def Quaternion4_def)
  have far: "1 / 1000 \<le> sqrt (1 - dot (Quaternion4 1 0 0 0) (Quaternion4 0 1 0 0)
                            * dot (Quaternion4 1 0 0 0) (Quaternion4 0 1 0 0))"
    by (simp add: d)
  from slerp_endpoints [OF u v far] u v far show ?thesis by blast
qed

section \<open>Axis-angle construction: lemmas\<close>

lemma rd_fin_int:
  assumes "x / ulp x = of_int m"
  shows "rd_fin x = x"
proof (cases "x = 0")
  case True
  then show ?thesis by (simp add: rd_fin_def)
next
  case False
  have u: "ulp x \<noteq> 0" using ulp_pos [of x] by simp
  have "rd_fin x = of_int (round_even (x / ulp x)) * ulp x" using False by (simp add: rd_fin_def)
  also have "\<dots> = of_int m * ulp x" by (simp only: assms round_even_of_int)
  also have "\<dots> = x / ulp x * ulp x" by (simp only: assms)
  also have "\<dots> = x" using u by simp
  finally show ?thesis .
qed

lemma ulp_two_pi: "ulp (2 * Math_PI) = 1 / 2 ^ 50" "ulp (- (2 * Math_PI)) = 1 / 2 ^ 50"
proof -
  have pos: "0 < 2 * Math_PI" by (simp add: Math_PI_def)
  have "\<lfloor>log 2 (2 * Math_PI)\<rfloor> = 2"
    by (subst floor_log_eq_powr_iff) (simp_all add: Math_PI_def)
  then have e: "ulp_exp (2 * Math_PI) = - 50" using pos by (simp add: ulp_exp_def)
  have "(2::real) powr (- 50) = 1 / 2 powr 50" by (rule powr_minus_divide)
  then have p: "(2::real) powr (- 50) = 1 / 2 ^ 50" by simp
  show "ulp (2 * Math_PI) = 1 / 2 ^ 50" by (simp add: ulp_def e p)
  have "ulp_exp (- (2 * Math_PI)) = ulp_exp (2 * Math_PI)" by (simp add: ulp_exp_def)
  then show "ulp (- (2 * Math_PI)) = 1 / 2 ^ 50" by (simp add: ulp_def e p)
qed

lemma two_pi_double:
  "fmul (Fin 2) (Fin Math_PI) = Fin (2 * Math_PI)"
  "fmul (Fin (- 2)) (Fin Math_PI) = Fin (- (2 * Math_PI))"
proof -
  have small: "\<bar>2 * Math_PI\<bar> \<le> 2 ^ 1022" "\<bar>- (2 * Math_PI)\<bar> \<le> 2 ^ 1022"
    by (simp_all add: Math_PI_def)
  have "2 * Math_PI / ulp (2 * Math_PI) = of_int 7074237752028440"
    by (simp only: ulp_two_pi) (simp add: Math_PI_def)
  then have a: "rd_fin (2 * Math_PI) = 2 * Math_PI" by (rule rd_fin_int)
  have "- (2 * Math_PI) / ulp (- (2 * Math_PI)) = of_int (- 7074237752028440)"
    by (simp only: ulp_two_pi) (simp add: Math_PI_def)
  then have b: "rd_fin (- (2 * Math_PI)) = - (2 * Math_PI)" by (rule rd_fin_int)
  from rd_finite [OF small(1)] show "fmul (Fin 2) (Fin Math_PI) = Fin (2 * Math_PI)"
    by (simp only: fmul.simps a)
  have "- 2 * Math_PI = - (2 * Math_PI)" by simp
  with rd_finite [OF small(2)] show "fmul (Fin (- 2)) (Fin Math_PI) = Fin (- (2 * Math_PI))"
    by (simp only: fmul.simps b)
qed

lemma trunc_rem_pos:
  assumes "0 < a" and "0 < b"
  shows "0 \<le> a - b * of_int (js_trunc (a / b))" and "a - b * of_int (js_trunc (a / b)) < b"
proof -
  let ?n = "\<lfloor>a / b\<rfloor>"
  from assms have "\<not> a / b < 0" by (simp add: not_less)
  then have t: "js_trunc (a / b) = ?n" by (simp add: js_trunc_def)
  from assms(2) have lo: "of_int ?n * b \<le> a" by (rule floor_divide_lower)
  from assms(2) have hi: "a < (of_int ?n + 1) * b" by (rule floor_divide_upper)
  from lo show "0 \<le> a - b * of_int (js_trunc (a / b))" by (simp add: t mult.commute)
  from hi show "a - b * of_int (js_trunc (a / b)) < b" by (simp add: t algebra_simps)
qed

lemma trunc_rem_nonpos:
  assumes "a \<le> 0" and "0 < b"
  shows "- b < a - (- b) * of_int (js_trunc (a / (- b)))"
    and "a - (- b) * of_int (js_trunc (a / (- b))) \<le> 0"
proof -
  let ?n = "\<lfloor>(- a) / b\<rfloor>"
  have q: "a / (- b) = (- a) / b" by simp
  from assms have "0 \<le> (- a) / b" by (intro divide_nonneg_pos) simp_all
  then have "\<not> (- a) / b < 0" by (simp only: not_less)
  then have t: "js_trunc (a / (- b)) = ?n" by (simp only: q js_trunc_def if_False)
  from assms(2) have lo: "of_int ?n * b \<le> - a" by (rule floor_divide_lower)
  from assms(2) have hi: "- a < (of_int ?n + 1) * b" by (rule floor_divide_upper)
  have e: "a - (- b) * of_int (js_trunc (a / (- b))) = a + b * of_int ?n"
    by (simp only: t minus_mult_left [symmetric] diff_minus_eq_add)
  from hi have "- b < a + b * of_int ?n" by (simp add: algebra_simps)
  then show "- b < a - (- b) * of_int (js_trunc (a / (- b)))" by (simp only: e)
  from lo have "a + b * of_int ?n \<le> 0" by (simp add: mult.commute)
  then show "a - (- b) * of_int (js_trunc (a / (- b))) \<le> 0" by (simp only: e)
qed

lemma wrap_angle_finite:
  "\<exists>r. wrap_angle (Fin a) = Fin r \<and> \<bar>r\<bar> < 2 * Math_PI \<and> 0 \<le> r * a
       \<and> (\<exists>k::int. a = r + 2 * Math_PI * of_int k)"
proof (cases "0 < a")
  case True
  let ?b = "2 * Math_PI"
  let ?r = "a - ?b * of_int (js_trunc (a / ?b))"
  have b: "0 < ?b" by (simp add: Math_PI_def)
  then have bnz: "?b \<noteq> 0" by simp
  from True have w: "wrap_angle (Fin a) = Fin ?r"
    by (simp only: wrap_angle_def js_gt.simps two_pi_double frem.simps bnz if_True if_False)
  note r = trunc_rem_pos [OF True b]
  from r have ab: "\<bar>?r\<bar> < ?b" by linarith
  from r(1) True have sg: "0 \<le> ?r * a" by simp
  have k: "a = ?r + ?b * of_int (js_trunc (a / ?b))" by simp
  show ?thesis
  proof (intro exI conjI)
    show "wrap_angle (Fin a) = Fin ?r" by (rule w)
    show "\<bar>?r\<bar> < ?b" by (rule ab)
    show "0 \<le> ?r * a" by (rule sg)
    show "a = ?r + ?b * of_int (js_trunc (a / ?b))" by (rule k)
  qed
next
  case False
  then have np: "a \<le> 0" by simp
  let ?b = "2 * Math_PI"
  let ?n = "js_trunc (a / (- ?b))"
  let ?r = "a - (- ?b) * of_int ?n"
  have b: "0 < ?b" by (simp add: Math_PI_def)
  then have bnz: "- ?b \<noteq> 0" by simp
  from False have w: "wrap_angle (Fin a) = Fin ?r"
    by (simp only: wrap_angle_def js_gt.simps two_pi_double frem.simps bnz if_True if_False)
  note r = trunc_rem_nonpos [OF np b]
  from r b have ab: "\<bar>?r\<bar> < ?b" by linarith
  from r(2) np have sg: "0 \<le> ?r * a" by (rule mult_nonpos_nonpos)
  have k: "a = ?r + ?b * of_int (- ?n)" by simp
  show ?thesis
  proof (intro exI conjI)
    show "wrap_angle (Fin a) = Fin ?r" by (rule w)
    show "\<bar>?r\<bar> < ?b" by (rule ab)
    show "0 \<le> ?r * a" by (rule sg)
    show "a = ?r + ?b * of_int (- ?n)" by (rule k)
  qed
qed

lemma arctan_terms_decreasing:
  fixes x :: real
  assumes "0 \<le> x" "x \<le> 1"
  shows "1 / real (Suc n * 2 + 1) * x ^ (Suc n * 2 + 1) \<le> 1 / real (n * 2 + 1) * x ^ (n * 2 + 1)"
proof (rule mult_mono)
  show "1 / real (Suc n * 2 + 1) \<le> 1 / real (n * 2 + 1)" by (simp add: frac_le)
  show "x ^ (Suc n * 2 + 1) \<le> x ^ (n * 2 + 1)" using assms by (intro power_decreasing) simp_all
  show "0 \<le> 1 / real (n * 2 + 1)" by simp
  show "0 \<le> x ^ (Suc n * 2 + 1)" using assms by simp
qed

lemma arctan_bounds:
  fixes x :: real
  assumes "0 \<le> x" "x \<le> 1"
  shows "(\<Sum>i<2 * n. (- 1) ^ i * (1 / real (i * 2 + 1) * x ^ (i * 2 + 1))) \<le> arctan x"
    and "arctan x \<le> (\<Sum>i<2 * n + 1. (- 1) ^ i * (1 / real (i * 2 + 1) * x ^ (i * 2 + 1)))"
proof -
  let ?a = "\<lambda>n. 1 / real (n * 2 + 1) * x ^ (n * 2 + 1)"
  from assms have ax: "\<bar>x\<bar> \<le> 1" by simp
  have z: "?a \<longlonglongrightarrow> 0" by (rule zeroseq_arctan_series [OF ax])
  have p: "\<And>n. 0 \<le> ?a n" using assms by simp
  have m: "\<And>n. ?a (Suc n) \<le> ?a n" by (rule arctan_terms_decreasing [OF assms])
  have s: "arctan x = (\<Sum>k. (- 1) ^ k * ?a k)" by (rule arctan_series [OF ax])
  from summable_Leibniz'(2) [of ?a, OF z p m, of n]
  show "(\<Sum>i<2 * n. (- 1) ^ i * ?a i) \<le> arctan x" by (simp only: s)
  from summable_Leibniz'(4) [of ?a, OF z p m, of n]
  show "arctan x \<le> (\<Sum>i<2 * n + 1. (- 1) ^ i * ?a i)" by (simp only: s)
qed

lemma arctan5_lo: "19739555984988075836 / 10 ^ 20 \<le> arctan (1 / 5)"
proof -
  have "(\<Sum>i<2 * 7. (- 1) ^ i * (1 / real (i * 2 + 1) * (1 / 5) ^ (i * 2 + 1))) \<le> arctan (1 / 5)"
    by (rule arctan_bounds) simp_all
  then show ?thesis by (simp add: eval_nat_numeral)
qed

lemma arctan5_hi: "arctan (1 / 5) \<le> 19739555984988075838 / 10 ^ 20"
proof -
  have "arctan (1 / 5) \<le> (\<Sum>i<2 * 6 + 1. (- 1) ^ i * (1 / real (i * 2 + 1) * (1 / 5) ^ (i * 2 + 1)))"
    by (rule arctan_bounds) simp_all
  then show ?thesis by (simp add: eval_nat_numeral)
qed

lemma arctan239_lo: "418407600207472386 / 10 ^ 20 \<le> arctan (1 / 239)"
proof -
  have "(\<Sum>i<2 * 2. (- 1) ^ i * (1 / real (i * 2 + 1) * (1 / 239) ^ (i * 2 + 1))) \<le> arctan (1 / 239)"
    by (rule arctan_bounds) simp_all
  then show ?thesis by (simp add: eval_nat_numeral)
qed

lemma arctan239_hi: "arctan (1 / 239) \<le> 418407600207472387 / 10 ^ 20"
proof -
  have "arctan (1 / 239) \<le> (\<Sum>i<2 * 2 + 1. (- 1) ^ i * (1 / real (i * 2 + 1) * (1 / 239) ^ (i * 2 + 1)))"
    by (rule arctan_bounds) simp_all
  then show ?thesis by (simp add: eval_nat_numeral)
qed

lemma pi_bounds: "31415926535897932382 / 10 ^ 19 < pi" "pi < 31415926535897932387 / 10 ^ 19"
proof -
  have m: "pi = 16 * arctan (1 / 5) - 4 * arctan (1 / 239)" using machin by simp
  from arctan5_lo arctan239_hi show "31415926535897932382 / 10 ^ 19 < pi" unfolding m by simp
  from arctan5_hi arctan239_lo show "pi < 31415926535897932387 / 10 ^ 19" unfolding m by simp
qed

lemma Math_PI_less_pi: "Math_PI < pi" "pi < Math_PI + 1 / 2 ^ 52"
  using pi_bounds by (simp_all add: Math_PI_def)

lemma Math_PI_nearest: "rd pi = Fin Math_PI"
proof -
  have "\<lfloor>log 2 pi\<rfloor> = 1"
    using pi_ge_two pi_less_4 by (subst floor_log_eq_powr_iff) simp_all
  then have e: "ulp_exp pi = - 51" by (simp add: ulp_exp_def)
  have "(2::real) powr (- 51) = 1 / 2 powr 51" by (rule powr_minus_divide)
  then have p: "(2::real) powr (- 51) = 1 / 2 ^ 51" by simp
  have u: "ulp pi = 1 / 2 ^ 51" by (simp add: ulp_def e p)
  let ?q = "pi / ulp pi"
  have q: "?q = pi * 2 ^ 51" by (simp add: u)
  have lo: "7074237752028440 < ?q" using Math_PI_less_pi(1) by (simp add: q Math_PI_def)
  have hi: "?q < 7074237752028440 + 1 / 2" using pi_bounds(2) by (simp add: q)
  have a: "(7074237752028440::real) \<le> ?q" using lo by linarith
  have b: "?q < 7074237752028440 + 1" using hi by linarith
  have f: "\<lfloor>?q\<rfloor> = 7074237752028440"
    by (rule floor_unique) (simp_all only: of_int_numeral a b)
  have "?q - of_int \<lfloor>?q\<rfloor> < 1 / 2" using hi by (simp only: f)
  then have r: "round_even ?q = 7074237752028440" by (simp add: round_even_def Let_def f)
  have "rd_fin pi = of_int (round_even ?q) * ulp pi" by (simp add: rd_fin_def)
  also have "\<dots> = Math_PI" by (simp only: r) (simp add: u Math_PI_def)
  finally have v: "rd_fin pi = Math_PI" .
  have "\<bar>pi\<bar> \<le> 2 ^ 1022" using pi_less_4 pi_gt_zero by simp
  from rd_finite [OF this] show ?thesis by (simp only: v)
qed

lemma far_from_full_turns:
  fixes k :: int
  shows "2 < \<bar>84890853024341280 - 2 * pi * of_int k\<bar>"
proof (cases "13510798882111488 \<le> k")
  case True
  then have "(13510798882111488::real) \<le> of_int k" by linarith
  then have "pi * 13510798882111488 \<le> pi * of_int k"
    by (rule mult_left_mono) simp
  moreover have "84890853024341280 + 2 < 2 * (pi * 13510798882111488)"
    using pi_bounds(1) by simp
  ultimately have "84890853024341280 + 2 < 2 * (pi * of_int k)" by linarith
  then show ?thesis by simp
next
  case False
  then have "k \<le> 13510798882111487" by simp
  then have "of_int k \<le> (13510798882111487::real)" by linarith
  then have "pi * of_int k \<le> pi * 13510798882111487"
    by (rule mult_left_mono) simp
  moreover have "2 * (pi * 13510798882111487) + 2 < 84890853024341280"
    using pi_bounds(2) by simp
  ultimately have "2 * (pi * of_int k) + 2 < 84890853024341280" by linarith
  then show ?thesis by simp
qed

lemma wrap_angle_large: "wrap_angle (Fin 84890853024341280) = Fin 0"
proof -
  have q: "84890853024341280 / (2 * Math_PI) = (13510798882111488::real)"
    by (simp add: Math_PI_def)
  have t: "js_trunc (84890853024341280 / (2 * Math_PI)) = 13510798882111488"
    by (simp only: q) (simp add: js_trunc_def)
  have nz: "2 * Math_PI \<noteq> 0" by (simp add: Math_PI_def)
  have "wrap_angle (Fin 84890853024341280)
      = Fin (84890853024341280 - 2 * Math_PI * of_int (js_trunc (84890853024341280 / (2 * Math_PI))))"
    by (simp only: wrap_angle_def two_pi_double frem.simps nz if_False) simp
  also have "\<dots> = Fin 0" by (simp only: t) (simp add: Math_PI_def)
  finally show ?thesis .
qed

lemma wrap_angle_nonfinite:
  "wrap_angle PInf = NaN" "wrap_angle NInf = NaN" "wrap_angle NaN = NaN"
  by (simp_all only: wrap_angle_def two_pi_double js_gt.simps frem.simps if_True if_False)

lemma sq_le_sum3:
  fixes x y z :: real
  shows "x * x \<le> x * x + y * y + z * z" and "y * y \<le> x * x + y * y + z * z"
    and "z * z \<le> x * x + y * y + z * z"
  by (simp_all add: add_nonneg_nonneg)

lemma Vec3_normalize_close:
  fixes x y z :: real
  assumes sx: "safe x" and sy: "safe y" and sz: "safe z"
    and nz: "x * x + y * y + z * z \<noteq> 0"
  shows "\<exists>fx fy fz.
      Vec3_normalize \<lparr> vx = Fin x, vy = Fin y, vz = Fin z \<rparr>
        = \<lparr> vx = Fin fx, vy = Fin fy, vz = Fin fz \<rparr>
      \<and> close 5 \<bar>fx\<bar> (\<bar>x\<bar> / sqrt (x * x + y * y + z * z)) \<and> 0 \<le> fx * x
      \<and> close 5 \<bar>fy\<bar> (\<bar>y\<bar> / sqrt (x * x + y * y + z * z)) \<and> 0 \<le> fy * y
      \<and> close 5 \<bar>fz\<bar> (\<bar>z\<bar> / sqrt (x * x + y * y + z * z)) \<and> 0 \<le> fz * z"
proof -
  let ?S = "x * x + y * y + z * z"
  let ?M = "sqrt ?S"
  let ?v = "\<lparr> vx = Fin x, vy = Fin y, vz = Fin z \<rparr>"
  from sq_round [OF sx] obtain tx where tx: "fmul (Fin x) (Fin x) = Fin tx" "close 1 tx (x * x)" by blast
  from sq_round [OF sy] obtain ty where ty: "fmul (Fin y) (Fin y) = Fin ty" "close 1 ty (y * y)" by blast
  from sq_round [OF sz] obtain tz where tz: "fmul (Fin z) (Fin z) = Fin tz" "close 1 tz (z * z)" by blast
  have r1: "rng (1 / 2 ^ 1010) (2 ^ 500 + 2 ^ 500) (x * x + y * y)"
    by (rule rng_add [OF _ safe_sq [OF sx] safe_sq [OF sy]]) simp_all
  have r2: "rng (1 / 2 ^ 1010) (2 ^ 500 + 2 ^ 500 + 2 ^ 500) ?S"
    by (rule rng_add [OF _ r1 safe_sq [OF sz]]) simp_all
  have ok1: "ok (x * x + y * y)" by (rule rng_ok [OF r1]) simp_all
  have ok2: "ok ?S" by (rule rng_ok [OF r2]) simp_all
  from add_round [OF tx(2) ty(2) ok1] obtain s1 where
    s1: "fadd (Fin tx) (Fin ty) = Fin s1" "close 2 s1 (x * x + y * y)"
    by (auto simp: numeral_2_eq_2)
  from add_round [OF s1(2) close_mono [OF tz(2)] ok2] obtain s2 where
    s2: "fadd (Fin s1) (Fin tz) = Fin s2" "close 3 s2 ?S"
    by (auto simp: numeral_3_eq_3)
  from r2 nz have Slo: "1 / 2 ^ 1010 \<le> ?S" and Shi: "?S \<le> 2 ^ 500 + 2 ^ 500 + 2 ^ 500"
    by (simp_all add: rng_def)
  have Mlo: "1 / 2 ^ 505 \<le> ?M"
    by (rule real_le_rsqrt) (rule order_trans [OF _ Slo], simp add: power_divide)
  have Mhi: "?M \<le> 2 ^ 252"
    by (rule real_le_lsqrt) (simp, rule order_trans [OF Shi], simp)
  have Mpos: "0 < ?M" using Mlo by (rule less_le_trans [rotated]) simp
  have okM: "ok ?M"
  proof -
    have "(1::real) / 2 ^ 1020 \<le> 1 / 2 ^ 505" by simp
    then have "1 / 2 ^ 1020 \<le> ?M" using Mlo by (rule order_trans)
    moreover have "?M \<le> 2 ^ 1020" by (rule order_trans [OF Mhi]) simp
    ultimately show ?thesis by (simp add: ok_def)
  qed
  from sqrt_round [OF s2(2) okM] obtain m where
    m: "fsqrt (Fin s2) = Fin m" "0 \<le> m" "close 4 m ?M"
    by (auto simp: eval_nat_numeral)
  from close_zero_iff [OF m(3)] Mpos have mnz: "m \<noteq> 0" by simp
  have qx: "ok (\<bar>x\<bar> / ?M)" by (rule quot_ok [OF sx abs_le_sqrt [OF sq_le_sum3(1)] Mpos Mhi])
  have qy: "ok (\<bar>y\<bar> / ?M)" by (rule quot_ok [OF sy abs_le_sqrt [OF sq_le_sum3(2)] Mpos Mhi])
  have qz: "ok (\<bar>z\<bar> / ?M)" by (rule quot_ok [OF sz abs_le_sqrt [OF sq_le_sum3(3)] Mpos Mhi])
  from div_round [OF m(3) Mpos qx] obtain fx where
    fx: "fdiv (Fin x) (Fin m) = Fin fx" "close 5 \<bar>fx\<bar> (\<bar>x\<bar> / ?M)" "0 \<le> fx * x"
    by (auto simp: eval_nat_numeral)
  from div_round [OF m(3) Mpos qy] obtain fy where
    fy: "fdiv (Fin y) (Fin m) = Fin fy" "close 5 \<bar>fy\<bar> (\<bar>y\<bar> / ?M)" "0 \<le> fy * y"
    by (auto simp: eval_nat_numeral)
  from div_round [OF m(3) Mpos qz] obtain fz where
    fz: "fdiv (Fin z) (Fin m) = Fin fz" "close 5 \<bar>fz\<bar> (\<bar>z\<bar> / ?M)" "0 \<le> fz * z"
    by (auto simp: eval_nat_numeral)
  have "Vec3_normalize ?v = \<lparr> vx = fdiv (Fin x) (Fin m), vy = fdiv (Fin y) (Fin m),
      vz = fdiv (Fin z) (Fin m) \<rparr>"
    using mnz
    by (simp add: Vec3_normalize_def Let_def tx ty tz s1 s2 m
          del: fdiv.simps fmul.simps fadd.simps fsqrt.simps)
  then have "Vec3_normalize ?v = \<lparr> vx = Fin fx, vy = Fin fy, vz = Fin fz \<rparr>"
    by (simp only: fx(1) fy(1) fz(1))
  with fx(2,3) fy(2,3) fz(2,3) show ?thesis by blast
qed

lemma Vec3_normalize_accurate:
  fixes x y z :: real
  assumes sx: "safe x" and sy: "safe y" and sz: "safe z"
    and nz: "sqrt (x * x + y * y + z * z) \<noteq> 0"
  shows "\<exists>nx ny nz.
      Vec3_normalize \<lparr> vx = Fin x, vy = Fin y, vz = Fin z \<rparr>
        = \<lparr> vx = Fin nx, vy = Fin ny, vz = Fin nz \<rparr>
      \<and> \<bar>nx - x / sqrt (x * x + y * y + z * z)\<bar> \<le> \<bar>x / sqrt (x * x + y * y + z * z)\<bar> / 2 ^ 47
      \<and> \<bar>ny - y / sqrt (x * x + y * y + z * z)\<bar> \<le> \<bar>y / sqrt (x * x + y * y + z * z)\<bar> / 2 ^ 47
      \<and> \<bar>nz - z / sqrt (x * x + y * y + z * z)\<bar> \<le> \<bar>z / sqrt (x * x + y * y + z * z)\<bar> / 2 ^ 47"
proof -
  let ?S = "x * x + y * y + z * z"
  let ?M = "sqrt ?S"
  have Snz: "?S \<noteq> 0"
  proof
    assume "?S = 0"
    then have "?M = 0" by (simp only: real_sqrt_zero)
    with nz show False ..
  qed
  have "0 \<le> ?M" by (simp add: add_nonneg_nonneg)
  with nz have Mpos: "0 < ?M" by linarith
  from Vec3_normalize_close [OF sx sy sz Snz] obtain fx fy fz where
    n: "Vec3_normalize \<lparr> vx = Fin x, vy = Fin y, vz = Fin z \<rparr>
          = \<lparr> vx = Fin fx, vy = Fin fy, vz = Fin fz \<rparr>"
    and cx: "close 5 \<bar>fx\<bar> (\<bar>x\<bar> / ?M)" "0 \<le> fx * x"
    and cy: "close 5 \<bar>fy\<bar> (\<bar>y\<bar> / ?M)" "0 \<le> fy * y"
    and cz: "close 5 \<bar>fz\<bar> (\<bar>z\<bar> / ?M)" "0 \<le> fz * z"
    by (elim exE conjE) (rule that)
  have d: "\<bar>f - v / ?M\<bar> \<le> \<bar>v / ?M\<bar> / 2 ^ 47"
    if c: "close 5 \<bar>f\<bar> (\<bar>v\<bar> / ?M)" and s: "0 \<le> f * v" for f v
  proof (rule close_abs_diff)
    have a: "\<bar>v / ?M\<bar> = \<bar>v\<bar> / ?M" using Mpos by (simp add: abs_divide)
    from c have "close 18 \<bar>f\<bar> (\<bar>v\<bar> / ?M)" by (rule close_mono) simp
    then show "close 18 \<bar>f\<bar> \<bar>v / ?M\<bar>" by (simp only: a)
    have "0 \<le> (f * v) / ?M" using s Mpos by (intro divide_nonneg_pos)
    then show "0 \<le> f * (v / ?M)" by simp
  qed
  from n d [OF cx] d [OF cy] d [OF cz] show ?thesis by blast
qed

lemma rd_one: "rd 1 = Fin 1"
proof -
  have e: "ulp_exp 1 = - 52" by (simp add: ulp_exp_def)
  have u: "ulp 1 = 1 / 2 ^ 52" by (simp add: ulp_def e p52)
  have "1 / ulp 1 = of_int (2 ^ 52)" by (simp add: u)
  then have "rd_fin 1 = 1" by (rule rd_fin_int)
  moreover have "rd 1 = Fin (rd_fin 1)" by (rule rd_finite) simp
  ultimately show ?thesis by simp
qed

lemma normalize_identity:
  "normalize \<lparr> qw = Fin 1, qx = Fin 0, qy = Fin 0, qz = Fin 0 \<rparr>
     = \<lparr> qw = Fin 1, qx = Fin 0, qy = Fin 0, qz = Fin 0 \<rparr>"
  by (simp add: normalize_def Let_def rd_zero rd_one)

lemma rotationRadians_unfold:
  "rotationRadians Math_sin Math_cos angle axis
     = normalize \<lparr> qw = Math_cos (fdiv (wrap_angle angle) (Fin 2)),
         qx = fmul (vx (Vec3_normalize axis)) (Math_sin (fdiv (wrap_angle angle) (Fin 2))),
         qy = fmul (vy (Vec3_normalize axis)) (Math_sin (fdiv (wrap_angle angle) (Fin 2))),
         qz = fmul (vz (Vec3_normalize axis)) (Math_sin (fdiv (wrap_angle angle) (Fin 2))) \<rparr>"
  by (simp only: rotationRadians_def wrap_angle_def Let_def)

lemma Vec3_length_alt: "Vec3_length (Vec3 x y z) = sqrt (x * x + y * y + z * z)"
  by (simp add: Vec3_length_def Vec3_def)

section \<open>Axis-angle construction: claim\<close>

text \<open>
  Claim C8, as stated: \<open>rotationRadians(angle, axis)\<close> reduces a positive angle modulo
  \<open>2\<pi>\<close>. That fails on doubles: the code reduces modulo the double \<^verbatim>\<open>2*Math.PI\<close>, which
  is not \<open>2\<pi>\<close>, and the two reductions drift apart as the angle grows. The angle
  \<open>84890853024341280\<close>, a double, is \<open>3 * 2\<^sup>5\<^sup>2\<close> times \<^verbatim>\<open>2*Math.PI\<close> and is replaced by the
  angle 0, while it differs from every integer multiple of \<open>2\<pi>\<close> by more than 2 radians.
\<close>

theorem wrap_angle_not_mod_two_pi_counterexample:
  "wrap_angle (Fin 84890853024341280) = Fin 0
   \<and> (\<forall>k::int. 2 < \<bar>84890853024341280 - 2 * pi * of_int k\<bar>)"
  using wrap_angle_large far_from_full_turns by blast

text \<open>
  Claim C8, amended. \<open>rotationRadians(angle, axis)\<close> first replaces the angle by its
  remainder, modulo \<^verbatim>\<open>2*Math.PI\<close> when it is positive and modulo \<^verbatim>\<open>-2*Math.PI\<close> otherwise,
  where \<^verbatim>\<open>Math.PI\<close> is the double nearest to \<open>\<pi>\<close>, which is less than \<open>\<pi>\<close>. For a finite
  angle the remainder \<open>r\<close> lies in \<open>(-2\<pi>, 2\<pi>)\<close>, has the sign of the angle and differs
  from it by an integer multiple of the double \<^verbatim>\<open>2*Math.PI\<close>; for an infinite angle and for
  \<^verbatim>\<open>NaN\<close> it is \<^verbatim>\<open>NaN\<close>. The axis is normalized by \<^verbatim>\<open>Vec3.normalize\<close>: when its fields
  are zero or of a magnitude between \<open>2\<^sup>-\<^sup>5\<^sup>0\<^sup>5\<close> and \<open>2\<^sup>2\<^sup>5\<^sup>0\<close> and its length is not zero, each
  field of the normalized axis is the field divided by the length, up to a relative error of
  \<open>2\<^sup>-\<^sup>4\<^sup>7\<close>. The result is the normalization, by \<^verbatim>\<open>Quaternion.prototype.normalize\<close> in double
  arithmetic, of \<open>(cos(r/2), axis.x sin(r/2), axis.y sin(r/2), axis.z sin(r/2))\<close> computed
  with the host's \<^verbatim>\<open>Math.cos\<close> and \<^verbatim>\<open>Math.sin\<close> and rounded products.
  \<open>rotationDegrees(angle, axis)\<close> is \<open>rotationRadians(angle * (Math.PI / 180), axis)\<close>, the
  quotient and the product rounded.
\<close>

theorem rotationRadians_axis_angle:
  fixes a x y z :: real
  shows "(\<exists>r. wrap_angle (Fin a) = Fin r \<and> - (2 * pi) < r \<and> r < 2 * pi \<and> 0 \<le> r * a
              \<and> (\<exists>k::int. a = r + 2 * Math_PI * of_int k))
    \<and> rd pi = Fin Math_PI \<and> Math_PI < pi
    \<and> wrap_angle PInf = NaN \<and> wrap_angle NInf = NaN \<and> wrap_angle NaN = NaN
    \<and> rotationRadians Math_sin Math_cos angle axis
        = normalize \<lparr> qw = Math_cos (fdiv (wrap_angle angle) (Fin 2)),
            qx = fmul (vx (Vec3_normalize axis)) (Math_sin (fdiv (wrap_angle angle) (Fin 2))),
            qy = fmul (vy (Vec3_normalize axis)) (Math_sin (fdiv (wrap_angle angle) (Fin 2))),
            qz = fmul (vz (Vec3_normalize axis)) (Math_sin (fdiv (wrap_angle angle) (Fin 2))) \<rparr>
    \<and> rotationDegrees Math_sin Math_cos angle axis
        = rotationRadians Math_sin Math_cos (fmul angle (fdiv (Fin Math_PI) (Fin 180))) axis
    \<and> (safe x \<and> safe y \<and> safe z \<and> Vec3_length (Vec3 x y z) \<noteq> 0 \<longrightarrow>
        (\<exists>nx ny nz.
           Vec3_normalize \<lparr> vx = Fin x, vy = Fin y, vz = Fin z \<rparr>
             = \<lparr> vx = Fin nx, vy = Fin ny, vz = Fin nz \<rparr>
         \<and> \<bar>nx - x / Vec3_length (Vec3 x y z)\<bar> \<le> \<bar>x / Vec3_length (Vec3 x y z)\<bar> / 2 ^ 47
         \<and> \<bar>ny - y / Vec3_length (Vec3 x y z)\<bar> \<le> \<bar>y / Vec3_length (Vec3 x y z)\<bar> / 2 ^ 47
         \<and> \<bar>nz - z / Vec3_length (Vec3 x y z)\<bar> \<le> \<bar>z / Vec3_length (Vec3 x y z)\<bar> / 2 ^ 47))"
proof (intro conjI impI)
  from wrap_angle_finite [of a] obtain r where
    r: "wrap_angle (Fin a) = Fin r" "\<bar>r\<bar> < 2 * Math_PI" "0 \<le> r * a"
       "\<exists>k::int. a = r + 2 * Math_PI * of_int k"
    by (elim exE conjE) (rule that, assumption+, rule exI, assumption)
  from r(2) Math_PI_less_pi(1) have b: "- (2 * pi) < r" "r < 2 * pi" by linarith+
  show "\<exists>r. wrap_angle (Fin a) = Fin r \<and> - (2 * pi) < r \<and> r < 2 * pi \<and> 0 \<le> r * a
              \<and> (\<exists>k::int. a = r + 2 * Math_PI * of_int k)"
  proof (intro exI [of _ r] conjI)
    show "wrap_angle (Fin a) = Fin r" by (rule r(1))
    show "- (2 * pi) < r" by (rule b(1))
    show "r < 2 * pi" by (rule b(2))
    show "0 \<le> r * a" by (rule r(3))
    show "\<exists>k::int. a = r + 2 * Math_PI * of_int k" by (rule r(4))
  qed
  show "rd pi = Fin Math_PI" by (rule Math_PI_nearest)
  show "Math_PI < pi" by (rule Math_PI_less_pi(1))
  show "wrap_angle PInf = NaN" by (rule wrap_angle_nonfinite(1))
  show "wrap_angle NInf = NaN" by (rule wrap_angle_nonfinite(2))
  show "wrap_angle NaN = NaN" by (rule wrap_angle_nonfinite(3))
  show "rotationRadians Math_sin Math_cos angle axis
        = normalize \<lparr> qw = Math_cos (fdiv (wrap_angle angle) (Fin 2)),
            qx = fmul (vx (Vec3_normalize axis)) (Math_sin (fdiv (wrap_angle angle) (Fin 2))),
            qy = fmul (vy (Vec3_normalize axis)) (Math_sin (fdiv (wrap_angle angle) (Fin 2))),
            qz = fmul (vz (Vec3_normalize axis)) (Math_sin (fdiv (wrap_angle angle) (Fin 2))) \<rparr>"
    by (rule rotationRadians_unfold)
  show "rotationDegrees Math_sin Math_cos angle axis
        = rotationRadians Math_sin Math_cos (fmul angle (fdiv (Fin Math_PI) (Fin 180))) axis"
    by (rule rotationDegrees_def)
next
  assume h: "safe x \<and> safe y \<and> safe z \<and> Vec3_length (Vec3 x y z) \<noteq> 0"
  then have s: "safe x" "safe y" "safe z" by simp_all
  from h have "Vec3_length (Vec3 x y z) \<noteq> 0" by simp
  from this [unfolded Vec3_length_alt] have nz: "sqrt (x * x + y * y + z * z) \<noteq> 0" .
  from Vec3_normalize_accurate [OF s nz]
  show "\<exists>nx ny nz.
           Vec3_normalize \<lparr> vx = Fin x, vy = Fin y, vz = Fin z \<rparr>
             = \<lparr> vx = Fin nx, vy = Fin ny, vz = Fin nz \<rparr>
         \<and> \<bar>nx - x / Vec3_length (Vec3 x y z)\<bar> \<le> \<bar>x / Vec3_length (Vec3 x y z)\<bar> / 2 ^ 47
         \<and> \<bar>ny - y / Vec3_length (Vec3 x y z)\<bar> \<le> \<bar>y / Vec3_length (Vec3 x y z)\<bar> / 2 ^ 47
         \<and> \<bar>nz - z / Vec3_length (Vec3 x y z)\<bar> \<le> \<bar>z / Vec3_length (Vec3 x y z)\<bar> / 2 ^ 47"
    by (simp only: Vec3_length_alt)
qed

theorem rotationRadians_axis_angle_witness:
  "safe 0 \<and> safe 2 \<and> Vec3_length (Vec3 0 0 2) \<noteq> 0
   \<and> (\<exists>nx ny nz.
         Vec3_normalize \<lparr> vx = Fin 0, vy = Fin 0, vz = Fin 2 \<rparr>
           = \<lparr> vx = Fin nx, vy = Fin ny, vz = Fin nz \<rparr>
       \<and> nx = 0 \<and> ny = 0 \<and> \<bar>nz - 1\<bar> \<le> 1 / 2 ^ 47)
   \<and> rotationRadians Math_sin_rounded Math_cos_rounded (Fin 84890853024341280)
        \<lparr> vx = Fin 0, vy = Fin 0, vz = Fin 2 \<rparr>
      = \<lparr> qw = Fin 1, qx = Fin 0, qy = Fin 0, qz = Fin 0 \<rparr>"
proof -
  let ?axis = "\<lparr> vx = Fin 0, vy = Fin 0, vz = Fin 2 \<rparr>"
  let ?A = "Fin 84890853024341280"
  have s0: "safe 0" and s2: "safe 2" by (simp_all add: safe_def)
  have "Vec3_length (Vec3 0 0 2) = sqrt (2 * 2)" by (simp add: Vec3_length_alt)
  then have len: "Vec3_length (Vec3 0 0 2) = 2" by (simp only: real_sqrt_mult_self) simp
  then have nz: "Vec3_length (Vec3 0 0 2) \<noteq> 0" by simp
  note t = rotationRadians_axis_angle [where a = 84890853024341280 and x = 0 and y = 0 and z = 2
      and Math_sin = Math_sin_rounded and Math_cos = Math_cos_rounded
      and angle = ?A and axis = ?axis]
  from t have "safe 0 \<and> safe 0 \<and> safe 2 \<and> Vec3_length (Vec3 0 0 2) \<noteq> 0 \<longrightarrow>
        (\<exists>nx ny nz.
           Vec3_normalize ?axis = \<lparr> vx = Fin nx, vy = Fin ny, vz = Fin nz \<rparr>
         \<and> \<bar>nx - 0 / Vec3_length (Vec3 0 0 2)\<bar> \<le> \<bar>0 / Vec3_length (Vec3 0 0 2)\<bar> / 2 ^ 47
         \<and> \<bar>ny - 0 / Vec3_length (Vec3 0 0 2)\<bar> \<le> \<bar>0 / Vec3_length (Vec3 0 0 2)\<bar> / 2 ^ 47
         \<and> \<bar>nz - 2 / Vec3_length (Vec3 0 0 2)\<bar> \<le> \<bar>2 / Vec3_length (Vec3 0 0 2)\<bar> / 2 ^ 47)"
    by (elim conjE)
  with s0 s2 nz obtain nx ny nz where
    n: "Vec3_normalize ?axis = \<lparr> vx = Fin nx, vy = Fin ny, vz = Fin nz \<rparr>"
    and d: "\<bar>nx - 0 / Vec3_length (Vec3 0 0 2)\<bar> \<le> \<bar>0 / Vec3_length (Vec3 0 0 2)\<bar> / 2 ^ 47"
           "\<bar>ny - 0 / Vec3_length (Vec3 0 0 2)\<bar> \<le> \<bar>0 / Vec3_length (Vec3 0 0 2)\<bar> / 2 ^ 47"
           "\<bar>nz - 2 / Vec3_length (Vec3 0 0 2)\<bar> \<le> \<bar>2 / Vec3_length (Vec3 0 0 2)\<bar> / 2 ^ 47"
    by blast
  from d have v: "nx = 0" "ny = 0" "\<bar>nz - 1\<bar> \<le> 1 / 2 ^ 47" by (simp_all add: len)
  from t have "rotationRadians Math_sin_rounded Math_cos_rounded ?A ?axis
        = normalize \<lparr> qw = Math_cos_rounded (fdiv (wrap_angle ?A) (Fin 2)),
            qx = fmul (vx (Vec3_normalize ?axis)) (Math_sin_rounded (fdiv (wrap_angle ?A) (Fin 2))),
            qy = fmul (vy (Vec3_normalize ?axis)) (Math_sin_rounded (fdiv (wrap_angle ?A) (Fin 2))),
            qz = fmul (vz (Vec3_normalize ?axis)) (Math_sin_rounded (fdiv (wrap_angle ?A) (Fin 2))) \<rparr>"
    by (elim conjE)
  also have "\<dots> = normalize \<lparr> qw = Fin 1, qx = Fin 0, qy = Fin 0, qz = Fin 0 \<rparr>"
    by (simp only: wrap_angle_large n)
       (simp add: Math_sin_rounded_def Math_cos_rounded_def rd_zero rd_one)
  also have "\<dots> = \<lparr> qw = Fin 1, qx = Fin 0, qy = Fin 0, qz = Fin 0 \<rparr>"
    by (rule normalize_identity)
  finally have rr: "rotationRadians Math_sin_rounded Math_cos_rounded ?A ?axis
      = \<lparr> qw = Fin 1, qx = Fin 0, qy = Fin 0, qz = Fin 0 \<rparr>" .
  from n v have "\<exists>nx ny nz. Vec3_normalize ?axis = \<lparr> vx = Fin nx, vy = Fin ny, vz = Fin nz \<rparr>
       \<and> nx = 0 \<and> ny = 0 \<and> \<bar>nz - 1\<bar> \<le> 1 / 2 ^ 47"
    by blast
  with s0 s2 nz rr show ?thesis by (intro conjI)
qed

end
